theory Spec2Isabelle
  imports Main "HOL-Library.Word" "HOL-Library.Multiset"
begin

unbundle bit_operations_syntax

section \<open>JavaScript values\<close>

text \<open>
  A JavaScript string is a sequence of UTF-16 code units. \<open>js\<close> turns an ASCII literal
  into such a sequence; code units beyond ASCII are written as numbers.
\<close>

type_synonym code_unit = "16 word"
type_synonym jstring = "code_unit list"

definition js :: "string \<Rightarrow> jstring" where
  "js s = map of_char s"

text \<open>
  The values that \<open>JSON.parse\<close> produces, and \<open>undefined\<close> (what reading a missing
  property gives). The program looks at a Number only through \<open>typeof\<close> and
  \<open>String\<close>, so a Number is kept as the text that \<open>String\<close> renders for it. An object
  is the list of its own properties, each key once; values that no JSON text gives
  (functions, symbols, objects with accessors) are not modelled.
\<close>

datatype jsval =
    JUndefined
  | JNull
  | JBool bool
  | JNum jstring
  | JStr jstring
  | JArr "jsval list"
  | JObj "(jstring \<times> jsval) list"

datatype error = TypeError

text \<open>\<open>v?.k\<close>: \<open>undefined\<close> on \<open>null\<close> and \<open>undefined\<close>; on an object its own property
  \<open>k\<close>. None of the property names this program reads is defined on the prototypes of
  strings, numbers, booleans, arrays or plain objects, so every other read is
  \<open>undefined\<close>.\<close>

fun getOpt :: "jsval \<Rightarrow> jstring \<Rightarrow> jsval" where
  "getOpt (JObj ps) k = (case map_of ps k of Some v \<Rightarrow> v | None \<Rightarrow> JUndefined)"
| "getOpt _ k = JUndefined"

text \<open>\<open>v.k\<close>: as \<open>v?.k\<close>, but a TypeError on \<open>null\<close> and \<open>undefined\<close>.\<close>

fun getStrict :: "jsval \<Rightarrow> jstring \<Rightarrow> error + jsval" where
  "getStrict JUndefined k = Inl TypeError"
| "getStrict JNull k = Inl TypeError"
| "getStrict v k = Inr (getOpt v k)"

fun isArray :: "jsval \<Rightarrow> bool" where
  "isArray (JArr xs) = True"
| "isArray _ = False"

text \<open>\<open>typeof v === "object"\<close> holds of objects, arrays and \<open>null\<close>.\<close>

fun typeofObject :: "jsval \<Rightarrow> bool" where
  "typeofObject (JObj ps) = True"
| "typeofObject (JArr xs) = True"
| "typeofObject JNull = True"
| "typeofObject _ = False"

text \<open>Truthiness. A Number is falsy when it is \<open>0\<close>, \<open>-0\<close> (both rendered \<open>0\<close>) or
  \<open>NaN\<close>.\<close>

fun truthy :: "jsval \<Rightarrow> bool" where
  "truthy JUndefined = False"
| "truthy JNull = False"
| "truthy (JBool b) = b"
| "truthy (JNum s) = (s \<noteq> js ''0'' \<and> s \<noteq> js ''NaN'')"
| "truthy (JStr s) = (s \<noteq> [])"
| "truthy (JArr xs) = True"
| "truthy (JObj ps) = True"

text \<open>\<open>a ?? b\<close>\<close>

fun nullish :: "jsval \<Rightarrow> bool" where
  "nullish JUndefined = True"
| "nullish JNull = True"
| "nullish _ = False"

definition coalesce :: "jsval \<Rightarrow> jsval \<Rightarrow> jsval" where
  "coalesce a b = (if nullish a then b else a)"

text \<open>\<open>a || b\<close> on strings\<close>

definition orStr :: "jstring \<Rightarrow> jstring \<Rightarrow> jstring" where
  "orStr a b = (if a \<noteq> [] then a else b)"

subsection \<open>String operations\<close>

text \<open>The code units that \<open>String.prototype.trim\<close> removes and that \<open>\s\<close> matches:
  WhiteSpace and LineTerminator of ECMAScript.\<close>

definition isWhiteSpace :: "code_unit \<Rightarrow> bool" where
  "isWhiteSpace c \<longleftrightarrow>
     c = 0x9 \<or> c = 0xA \<or> c = 0xB \<or> c = 0xC \<or> c = 0xD \<or> c = 0x20 \<or> c = 0xA0 \<or>
     c = 0x1680 \<or> (0x2000 \<le> c \<and> c \<le> 0x200A) \<or> c = 0x2028 \<or> c = 0x2029 \<or>
     c = 0x202F \<or> c = 0x205F \<or> c = 0x3000 \<or> c = 0xFEFF"

definition trim :: "jstring \<Rightarrow> jstring" where
  "trim s = rev (dropWhile isWhiteSpace (rev (dropWhile isWhiteSpace s)))"

text \<open>\<open>s.split("\n")\<close>\<close>

fun splitOn :: "code_unit \<Rightarrow> jstring \<Rightarrow> jstring list" where
  "splitOn sep [] = [[]]"
| "splitOn sep (c # cs) =
     (if c = sep then [] # splitOn sep cs
      else (case splitOn sep cs of [] \<Rightarrow> [[c]] | l # ls \<Rightarrow> (c # l) # ls))"

definition splitLines :: "jstring \<Rightarrow> jstring list" where
  "splitLines s = splitOn 0xA s"

text \<open>\<open>ls.join(sep)\<close>, to state what the split gives.\<close>

fun joinWith :: "code_unit \<Rightarrow> jstring list \<Rightarrow> jstring" where
  "joinWith sep [] = []"
| "joinWith sep [l] = l"
| "joinWith sep (l # ls) = l @ sep # joinWith sep ls"

text \<open>The character class \<open>[-\<bullet>\d.)]\<close> (the bullet is U+2022).\<close>

definition isMarker :: "code_unit \<Rightarrow> bool" where
  "isMarker c \<longleftrightarrow>
     c = 0x2D \<or> c = 0x2022 \<or> (0x30 \<le> c \<and> c \<le> 0x39) \<or> c = 0x2E \<or> c = 0x29"

text \<open>\<open>x.replace(/^\s*[-\<bullet>\d.)]+\s*/, "")\<close>: the pattern is anchored at the start and
  its three parts match disjoint classes, so the greedy match is the leading white space,
  then the longest run of marker characters, which must not be empty, then the white
  space after it. Without a match the string is returned as it is.\<close>

definition replaceMarker :: "jstring \<Rightarrow> jstring" where
  "replaceMarker x =
     (let r = dropWhile isWhiteSpace x in
      if takeWhile isMarker r = [] then x
      else dropWhile isWhiteSpace (dropWhile isMarker r))"

text \<open>Decimal rendering of a non-negative integer, as a template literal renders
  \<open>${i + 1}\<close>.\<close>

definition digit :: "nat \<Rightarrow> code_unit" where
  "digit d = of_nat (48 + d)"

function natToString :: "nat \<Rightarrow> jstring" where
  "natToString n = (if n < 10 then [digit n] else natToString (n div 10) @ [digit (n mod 10)])"
  by pat_completeness auto
termination
  by (relation "measure id") auto

declare natToString.simps [simp del]

text \<open>\<open>String(v)\<close>. An array renders as its elements joined by commas, \<open>null\<close> and
  \<open>undefined\<close> elements as the empty string. A plain object renders as
  \<open>[object Object]\<close>, unless it has an own property \<open>toString\<close>: a parsed property is
  never callable, the inherited \<open>valueOf\<close> returns the object itself, and the
  conversion throws a TypeError.\<close>

fun toStringJ :: "jsval \<Rightarrow> error + jstring"
  and joinJ :: "jsval list \<Rightarrow> error + jstring" where
  "toStringJ JUndefined = Inr (js ''undefined'')"
| "toStringJ JNull = Inr (js ''null'')"
| "toStringJ (JBool b) = Inr (if b then js ''true'' else js ''false'')"
| "toStringJ (JNum s) = Inr s"
| "toStringJ (JStr s) = Inr s"
| "toStringJ (JArr xs) = joinJ xs"
| "toStringJ (JObj ps) =
     (if map_of ps (js ''toString'') = None then Inr (js ''[object Object]'')
      else Inl TypeError)"
| "joinJ [] = Inr []"
| "joinJ (x # xs) =
     (case (if nullish x then Inr [] else toStringJ x) of
        Inl e \<Rightarrow> Inl e
      | Inr s \<Rightarrow>
          (if xs = [] then Inr s
           else (case joinJ xs of Inl e \<Rightarrow> Inl e | Inr r \<Rightarrow> Inr (s @ js '','' @ r))))"

section \<open>Bullet coercion\<close>

text \<open>The plan page (\<open>safeStr\<close>, \<open>toStrArray\<close>).\<close>

fun safeStr :: "jsval \<Rightarrow> jstring" where
  "safeStr (JStr s) = trim s"
| "safeStr _ = []"

definition coerceLines :: "jstring \<Rightarrow> jstring list" where
  "coerceLines v =
     map (\<lambda>x. trim (replaceMarker x))
       (filter (\<lambda>x. x \<noteq> []) (map trim (splitLines v)))"

fun toStrArray :: "jsval \<Rightarrow> jstring list" where
  "toStrArray (JArr xs) = filter (\<lambda>x. x \<noteq> []) (map safeStr xs)"
| "toStrArray (JStr s) = coerceLines s"
| "toStrArray _ = []"

text \<open>The calendar page (\<open>normalizeBullets\<close>): \<open>String(x ?? "").trim()\<close> on each
  element, in order; the first element that cannot be rendered throws.\<close>

fun mapE :: "('a \<Rightarrow> error + 'b) \<Rightarrow> 'a list \<Rightarrow> error + 'b list" where
  "mapE f [] = Inr []"
| "mapE f (x # xs) =
     (case f x of
        Inl e \<Rightarrow> Inl e
      | Inr y \<Rightarrow> (case mapE f xs of Inl e \<Rightarrow> Inl e | Inr ys \<Rightarrow> Inr (y # ys)))"

definition stringTrim :: "jsval \<Rightarrow> error + jstring" where
  "stringTrim x =
     (case toStringJ (coalesce x (JStr [])) of Inl e \<Rightarrow> Inl e | Inr s \<Rightarrow> Inr (trim s))"

fun normalizeBullets :: "jsval \<Rightarrow> error + jstring list" where
  "normalizeBullets (JArr xs) =
     (case mapE stringTrim xs of
        Inl e \<Rightarrow> Inl e
      | Inr ys \<Rightarrow> Inr (filter (\<lambda>x. x \<noteq> []) ys))"
| "normalizeBullets (JStr s) = Inr (coerceLines s)"
| "normalizeBullets _ = Inr []"

text \<open>The generation endpoint (\<open>cleanStr\<close>, \<open>ensureArrayOfStrings\<close>).\<close>

fun cleanStr :: "jsval \<Rightarrow> jstring" where
  "cleanStr (JStr s) = trim s"
| "cleanStr _ = []"

definition ensureArrayOfStrings :: "jsval \<Rightarrow> jstring list" where
  "ensureArrayOfStrings x =
     (if \<not> isArray x then []
      else (case x of
              JArr vs \<Rightarrow>
                filter (\<lambda>s. s \<noteq> [])
                  (map (\<lambda>v. case v of JStr s \<Rightarrow> trim s | _ \<Rightarrow> []) vs)
            | _ \<Rightarrow> []))"

section \<open>The calendar page\<close>

text \<open>The types \<open>Step\<close> and \<open>Plan\<close> of the calendar page, here \<open>CalStep\<close> and
  \<open>CalPlan\<close> (the plan page has types of the same names). Every field is optional
  there; a field \<open>f?: T\<close> is the field \<open>f_opt\<close> of type \<open>T option\<close>. The bullets of a
  step are a list of strings or one string. The functions of the calendar page that take
  a \<open>Plan | null\<close> are modelled on these types.\<close>

datatype bullets = BulletList "jstring list" | BulletText jstring

record CalStep =
  title_opt :: "jstring option"
  summary_opt :: "jstring option"
  whatThisDoes_opt :: "bullets option"
  howTo_opt :: "bullets option"
  output_opt :: "jstring option"

record CalPlan =
  id_opt :: "jstring option"
  createdAt_opt :: "jstring option"
  idea_opt :: "jstring option"
  inputs_opt :: "(jstring \<times> jsval) list option"
  steps_opt :: "CalStep list option"

text \<open>A plan that has at most an id and an idea, as \<open>{id: "x"}\<close> or
  \<open>{idea: "Coffee cart"}\<close>.\<close>

definition planOf :: "jstring option \<Rightarrow> jstring option \<Rightarrow> CalPlan" where
  "planOf i d =
     \<lparr>id_opt = i, createdAt_opt = None, idea_opt = d, inputs_opt = None, steps_opt = None\<rparr>"

subsection \<open>Plan identity (\<open>planId\<close>)\<close>

text \<open>\<open>a || b\<close> where \<open>a\<close> and \<open>b\<close> are strings or \<open>undefined\<close>, and where \<open>b\<close> is a
  string.\<close>

definition orOpt :: "jstring option \<Rightarrow> jstring option \<Rightarrow> jstring option" where
  "orOpt a b = (case a of Some s \<Rightarrow> (if s \<noteq> [] then a else b) | None \<Rightarrow> b)"

definition orDefault :: "jstring option \<Rightarrow> jstring \<Rightarrow> jstring" where
  "orDefault a d = (case a of Some s \<Rightarrow> (if s \<noteq> [] then s else d) | None \<Rightarrow> d)"

text \<open>\<open>plan?.id || plan?.idea || "latest"\<close>\<close>

definition planBase :: "CalPlan option \<Rightarrow> jstring" where
  "planBase plan =
     orDefault
       (orOpt (case plan of None \<Rightarrow> None | Some p \<Rightarrow> id_opt p)
              (case plan of None \<Rightarrow> None | Some p \<Rightarrow> idea_opt p))
       (js ''latest'')"

text \<open>The loop over the code units. \<open>h ^= c\<close> and \<open>Math.imul\<close> work on the 32 bits of
  \<open>h\<close>.\<close>

fun hashLoop :: "jstring \<Rightarrow> 32 word \<Rightarrow> 32 word" where
  "hashLoop [] h = h"
| "hashLoop (c # cs) h = hashLoop cs ((h XOR ucast c) * 16777619)"

text \<open>\<open>n.toString(16)\<close> for a non-negative integer.\<close>

definition hexDigit :: "nat \<Rightarrow> code_unit" where
  "hexDigit d = (if d < 10 then of_nat (48 + d) else of_nat (87 + d))"

function toHex :: "nat \<Rightarrow> jstring" where
  "toHex n = (if n < 16 then [hexDigit n] else toHex (n div 16) @ [hexDigit (n mod 16)])"
  by pat_completeness auto
termination
  by (relation "measure id") auto

declare toHex.simps [simp del]

text \<open>\<open>h >>> 0\<close> reads the 32 bits as an unsigned number.\<close>

definition planId :: "CalPlan option \<Rightarrow> jstring" where
  "planId plan = js ''plan_'' @ toHex (unat (hashLoop (planBase plan) 2166136261))"

definition checksKey :: "jstring \<Rightarrow> jstring" where
  "checksKey i = js ''bsg_calendar_checks_v1_'' @ i"

text \<open>The hash as the specification words it: start from \<open>0x811c9dc5\<close>; for each code
  unit, \<open>h ^= code\<close>, then \<open>h = h * 0x01000193 mod 2^32\<close>.\<close>

definition fnv1a_spec :: "jstring \<Rightarrow> nat" where
  "fnv1a_spec s = foldl (\<lambda>h c. ((h XOR unat c) * 0x01000193) mod 2 ^ 32) 0x811c9dc5 s"

subsection \<open>Calendar derivation (\<open>chunkEvenly\<close>, \<open>buildDays\<close>)\<close>

definition bindE :: "error + 'a \<Rightarrow> ('a \<Rightarrow> error + 'b) \<Rightarrow> error + 'b" where
  "bindE m f = (case m of Inl e \<Rightarrow> Inl e | Inr x \<Rightarrow> f x)"

text \<open>The loop of \<open>chunkEvenly\<close>: \<open>out[i % buckets].push(items[i])\<close> for \<open>i\<close> from the
  given index on. With no bucket at index \<open>i % buckets\<close> (when \<open>buckets\<close> is 0) the
  push is a TypeError.\<close>

function chunkLoop :: "'a list \<Rightarrow> nat \<Rightarrow> nat \<Rightarrow> 'a list list \<Rightarrow> error + 'a list list" where
  "chunkLoop items buckets i out =
     (if i < length items then
        (if buckets = 0 \<or> length out \<le> i mod buckets then Inl TypeError
         else chunkLoop items buckets (i + 1)
                (out[i mod buckets := out ! (i mod buckets) @ [items ! i]]))
      else Inr out)"
  by pat_completeness auto
termination
  by (relation "measure (\<lambda>(items, buckets, i, out). length items - i)") auto

declare chunkLoop.simps [simp del]

definition chunkEvenly :: "'a list \<Rightarrow> nat \<Rightarrow> error + 'a list list" where
  "chunkEvenly items buckets =
     (let out = replicate buckets [] in
      if items = [] then Inr out else chunkLoop items buckets 0 out)"

record Day =
  day :: nat
  dateLabel :: jstring
  focus :: jstring
  tasks :: "jstring list"

text \<open>An entry of \<open>block\<close>: \<open>{title, days, bullets}\<close>.\<close>

record Block =
  b_title :: jstring
  b_days :: nat
  b_bullets :: "jstring list"

definition fallback1 :: "jstring list" where
  "fallback1 =
     [js ''Write your one-liner (who + outcome + why you).'',
      js ''Draft landing page: headline + 3 bullets + proof + CTA.'',
      js ''Write FAQs for top objections.'',
      js ''Clarify pricing/packaging and a single CTA.'']"

text \<open>U+2019 is the apostrophe of the third entry, U+2013 its dash, U+2192 the arrow of
  the last entry.\<close>

definition fallback2 :: "jstring list" where
  "fallback2 =
     [js ''Pick ONE channel for the 14-day sprint.'',
      js ''Create 3 hooks (pain/outcome/differentiator).'',
      js ''Do today'' @ [0x2019] @ js ''s outreach/content block (30'' @ [0x2013] @ js ''60 min).'',
      js ''Improve based on responses and iterate hooks.'',
      js ''Follow up within 24 hours.'',
      js ''Track: views '' @ [0x2192] @ js '' leads '' @ [0x2192] @ js '' conversions.'']"

definition fallback3 :: "jstring list" where
  "fallback3 =
     [js ''Collect proof (testimonial/screenshot/case study) and publish it.'',
      js ''Improve activation/onboarding to value fast.'',
      js ''Add a referral ask script and use it.'',
      js ''Review metrics and lock the next sprint.'']"

definition filler :: jstring where
  "filler = js ''Execute the next best action from this step.''"

text \<open>\<open>Array.isArray(plan?.steps) ? plan.steps : []\<close> and \<open>steps[i]\<close>\<close>

definition stepsOf :: "CalPlan option \<Rightarrow> CalStep list" where
  "stepsOf plan =
     (case plan of
        None \<Rightarrow> []
      | Some p \<Rightarrow> (case steps_opt p of None \<Rightarrow> [] | Some ss \<Rightarrow> ss))"

definition stepAt :: "CalStep list \<Rightarrow> nat \<Rightarrow> CalStep option" where
  "stepAt ss i = (if i < length ss then Some (ss ! i) else None)"

text \<open>The value that \<open>normalizeBullets(v: any)\<close> receives for \<open>step?.howTo\<close> and
  \<open>step?.whatThisDoes\<close>.\<close>

fun anyOf :: "bullets option \<Rightarrow> jsval" where
  "anyOf None = JUndefined"
| "anyOf (Some (BulletList xs)) = JArr (map JStr xs)"
| "anyOf (Some (BulletText s)) = JStr s"

text \<open>\<open>[...normalizeBullets(step?.howTo), ...normalizeBullets(step?.whatThisDoes)]\<close>\<close>

definition bulletsOf :: "CalStep option \<Rightarrow> error + jstring list" where
  "bulletsOf step =
     bindE (normalizeBullets (anyOf (case step of None \<Rightarrow> None | Some s \<Rightarrow> howTo_opt s)))
       (\<lambda>a. bindE
          (normalizeBullets
             (anyOf (case step of None \<Rightarrow> None | Some s \<Rightarrow> whatThisDoes_opt s)))
          (\<lambda>b. Inr (a @ b)))"

text \<open>\<open>step?.title?.trim() || d\<close>\<close>

definition titleOr :: "CalStep option \<Rightarrow> jstring \<Rightarrow> jstring" where
  "titleOr step d =
     orDefault
       (case step of
          None \<Rightarrow> None
        | Some s \<Rightarrow> (case title_opt s of None \<Rightarrow> None | Some t \<Rightarrow> Some (trim t)))
       d"

text \<open>\<open>bullets.length ? bullets : fallback\<close>, and likewise
  \<open>buckets[i].length ? buckets[i] : [filler]\<close>\<close>

definition orFallback :: "jstring list \<Rightarrow> jstring list \<Rightarrow> jstring list" where
  "orFallback bullets fallback = (if bullets \<noteq> [] then bullets else fallback)"

definition blockOf :: "CalPlan option \<Rightarrow> error + Block list" where
  "blockOf plan =
     (let steps = stepsOf plan;
          step1 = stepAt steps 0;
          step2 = stepAt steps 1;
          step3 = stepAt steps 2
      in bindE (bulletsOf step1) (\<lambda>s1Bullets.
         bindE (bulletsOf step2) (\<lambda>s2Bullets.
         bindE (bulletsOf step3) (\<lambda>s3Bullets.
           Inr [\<lparr>b_title = titleOr step1 (js ''Step 1: Positioning''), b_days = 4,
                  b_bullets = orFallback s1Bullets fallback1\<rparr>,
                \<lparr>b_title = titleOr step2 (js ''Step 2: Acquisition Sprint''), b_days = 6,
                  b_bullets = orFallback s2Bullets fallback2\<rparr>,
                \<lparr>b_title = titleOr step3 (js ''Step 3: Retention & Proof''), b_days = 4,
                  b_bullets = orFallback s3Bullets fallback3\<rparr>]))))"

text \<open>The inner loop of \<open>buildDays\<close>, from index \<open>i\<close> on; the state is the list
  \<open>days\<close> and the counter \<open>n\<close>. The date label of day \<open>n\<close> is the formatted date
  \<open>n - 1\<close> days after today: \<open>formatDate\<close> takes that offset, the clock and the locale
  being the environment's. \<open>buckets[i].length\<close> with no bucket at \<open>i\<close> is a
  TypeError.\<close>

function dayLoop ::
  "(nat \<Rightarrow> jstring) \<Rightarrow> Block \<Rightarrow> jstring list list \<Rightarrow> nat \<Rightarrow> Day list \<times> nat
     \<Rightarrow> error + Day list \<times> nat" where
  "dayLoop formatDate b buckets i st =
     (if i < b_days b then
        (if length buckets \<le> i then Inl TypeError
         else dayLoop formatDate b buckets (i + 1)
                (fst st @
                   [\<lparr>day = snd st, dateLabel = formatDate (snd st - 1), focus = b_title b,
                     tasks = orFallback (buckets ! i) [filler]\<rparr>],
                 snd st + 1))
      else Inr st)"
  by pat_completeness auto
termination
  by (relation "measure (\<lambda>(formatDate, b, buckets, i, st). b_days b - i)") auto

declare dayLoop.simps [simp del]

text \<open>The outer loop over \<open>block\<close>.\<close>

fun blockLoop ::
  "(nat \<Rightarrow> jstring) \<Rightarrow> Block list \<Rightarrow> Day list \<times> nat \<Rightarrow> error + Day list \<times> nat" where
  "blockLoop formatDate [] st = Inr st"
| "blockLoop formatDate (b # bs) st =
     bindE (chunkEvenly (b_bullets b) (b_days b)) (\<lambda>buckets.
     bindE (dayLoop formatDate b buckets 0 st) (\<lambda>st'.
       blockLoop formatDate bs st'))"

definition buildDays :: "(nat \<Rightarrow> jstring) \<Rightarrow> CalPlan option \<Rightarrow> error + Day list" where
  "buildDays formatDate plan =
     bindE (blockOf plan) (\<lambda>block.
     bindE (blockLoop formatDate block ([], 1)) (\<lambda>st.
       Inr (take 14 (fst st))))"

text \<open>Round-robin placement as the specification words it: bucket \<open>j\<close> of \<open>D\<close> holds
  the items whose index \<open>i\<close> has \<open>i mod D = j\<close>, in the order of the list.\<close>

definition bucketIdx :: "nat \<Rightarrow> nat \<Rightarrow> nat \<Rightarrow> nat list" where
  "bucketIdx N D j = filter (\<lambda>i. i mod D = j) [0..<N]"

definition roundRobin :: "'a list \<Rightarrow> nat \<Rightarrow> 'a list list" where
  "roundRobin items D =
     map (\<lambda>j. map (\<lambda>i. items ! i) (bucketIdx (length items) D j)) [0..<D]"

text \<open>Closed forms of the calendar derivation, used in the proofs: what
  \<open>normalizeBullets\<close> gives on the bullets of a typed step, the candidate pool of a
  step, the three entries of \<open>block\<close>, and the days of one entry starting at day
  \<open>n\<close>.\<close>

fun coerceBullets :: "bullets option \<Rightarrow> jstring list" where
  "coerceBullets None = []"
| "coerceBullets (Some (BulletList xs)) = filter (\<lambda>x. x \<noteq> []) (map trim xs)"
| "coerceBullets (Some (BulletText s)) = coerceLines s"

definition poolOf :: "CalStep option \<Rightarrow> jstring list" where
  "poolOf step =
     coerceBullets (case step of None \<Rightarrow> None | Some s \<Rightarrow> howTo_opt s) @
     coerceBullets (case step of None \<Rightarrow> None | Some s \<Rightarrow> whatThisDoes_opt s)"

definition blockDays :: "(nat \<Rightarrow> jstring) \<Rightarrow> Block \<Rightarrow> nat \<Rightarrow> Day list" where
  "blockDays formatDate b n =
     map (\<lambda>k. \<lparr>day = n + k, dateLabel = formatDate (n + k - 1), focus = b_title b,
               tasks = orFallback (roundRobin (b_bullets b) (b_days b) ! k) [filler]\<rparr>)
       [0..<b_days b]"

definition block1 :: "CalPlan option \<Rightarrow> Block" where
  "block1 plan =
     \<lparr>b_title = titleOr (stepAt (stepsOf plan) 0) (js ''Step 1: Positioning''), b_days = 4,
       b_bullets = orFallback (poolOf (stepAt (stepsOf plan) 0)) fallback1\<rparr>"

definition block2 :: "CalPlan option \<Rightarrow> Block" where
  "block2 plan =
     \<lparr>b_title = titleOr (stepAt (stepsOf plan) 1) (js ''Step 2: Acquisition Sprint''),
       b_days = 6,
       b_bullets = orFallback (poolOf (stepAt (stepsOf plan) 1)) fallback2\<rparr>"

definition block3 :: "CalPlan option \<Rightarrow> Block" where
  "block3 plan =
     \<lparr>b_title = titleOr (stepAt (stepsOf plan) 2) (js ''Step 3: Retention & Proof''),
       b_days = 4,
       b_bullets = orFallback (poolOf (stepAt (stepsOf plan) 2)) fallback3\<rparr>"

text \<open>The days allotted to the three steps, the index of the first day of each step in
  the result, and the canned lists, by step position.\<close>

definition allocation :: "nat list" where
  "allocation = [4, 6, 4]"

definition firstDay :: "nat list" where
  "firstDay = [0, 4, 10]"

definition fallbacks :: "jstring list list" where
  "fallbacks = [fallback1, fallback2, fallback3]"

text \<open>Example inputs: a step that has only bullet lists, a plan that has only steps.\<close>

definition exampleStep :: "jstring list \<Rightarrow> jstring list \<Rightarrow> CalStep" where
  "exampleStep how what =
     \<lparr>title_opt = None, summary_opt = None, whatThisDoes_opt = Some (BulletList what),
       howTo_opt = Some (BulletList how), output_opt = None\<rparr>"

definition examplePlan :: "CalStep list \<Rightarrow> CalPlan" where
  "examplePlan ss =
     \<lparr>id_opt = None, createdAt_opt = None, idea_opt = None, inputs_opt = None,
       steps_opt = Some ss\<rparr>"

section \<open>The plan page\<close>

record Inputs =
  targetCustomer :: "jstring option"
  coreOffer :: "jstring option"
  differentiator :: "jstring option"
  pricePoint :: "jstring option"
  geography :: "jstring option"
  goal14Day :: "jstring option"
  notes' :: "jstring option"

text \<open>The field \<open>notes\<close> is \<open>notes'\<close> here. \<open>Step\<close> of the plan page; \<open>PlanStep\<close> of the generation endpoint has the same
  fields.\<close>

record Step =
  title :: jstring
  summary :: jstring
  whatThisDoes :: "jstring list"
  howTo :: "jstring list"
  output' :: jstring

text \<open>The fields \<open>output\<close> and \<open>id\<close> are \<open>output'\<close> and \<open>id'\<close> here.\<close>

record Plan =
  id' :: jstring
  createdAt :: jstring
  idea :: jstring
  inputs :: Inputs
  steps :: "Step list"

subsection \<open>Plan normalizer (\<open>coercePlan\<close>)\<close>

text \<open>The elements of a value known to be an array.\<close>

fun arrayItems :: "jsval \<Rightarrow> jsval list" where
  "arrayItems (JArr xs) = xs"
| "arrayItems _ = []"

text \<open>\<open>raw?.inputs && typeof raw.inputs === "object" ? raw.inputs : {}\<close>\<close>

definition inputsRawOf :: "jsval \<Rightarrow> error + jsval" where
  "inputsRawOf raw =
     (if truthy (getOpt raw (js ''inputs'')) then
        bindE (getStrict raw (js ''inputs'')) (\<lambda>v.
          if typeofObject v then getStrict raw (js ''inputs'') else Inr (JObj []))
      else Inr (JObj []))"

text \<open>\<open>a || b\<close> where \<open>a\<close> is a string and \<open>b\<close> a string or \<open>undefined\<close>\<close>

definition orStrOpt :: "jstring \<Rightarrow> jstring option \<Rightarrow> jstring option" where
  "orStrOpt a b = (if a \<noteq> [] then Some a else b)"

text \<open>\<open>safeStr(inputsRaw?.k) || safeStr(raw?.k) || inputsFallback.k\<close>\<close>

definition inputField :: "jsval \<Rightarrow> jsval \<Rightarrow> jstring \<Rightarrow> jstring option \<Rightarrow> jstring option" where
  "inputField inputsRaw raw k fallback =
     orStrOpt (orStr (safeStr (getOpt inputsRaw k)) (safeStr (getOpt raw k))) fallback"

text \<open>\<open>Array.isArray(raw?.steps) ? raw.steps : []\<close>\<close>

definition stepsRawOf :: "jsval \<Rightarrow> error + jsval list" where
  "stepsRawOf raw =
     (if isArray (getOpt raw (js ''steps'')) then
        bindE (getStrict raw (js ''steps'')) (\<lambda>v. Inr (arrayItems v))
      else Inr [])"

text \<open>The callback of \<open>map\<close>: the step coerced from the entry \<open>s\<close> at index \<open>i\<close>.\<close>

definition coerceStep :: "jsval \<Rightarrow> nat \<Rightarrow> Step" where
  "coerceStep s i =
     \<lparr>title = orStr (safeStr (getOpt s (js ''title''))) (js ''Step '' @ natToString (i + 1)),
       summary = orStr (safeStr (getOpt s (js ''summary''))) [],
       whatThisDoes =
         toStrArray
           (coalesce (coalesce (getOpt s (js ''whatThisDoes'')) (getOpt s (js ''what'')))
              (getOpt s (js ''explain''))),
       howTo =
         toStrArray
           (coalesce (coalesce (getOpt s (js ''howTo'')) (getOpt s (js ''how_to'')))
              (getOpt s (js ''checklist''))),
       output' =
         orStr (safeStr (coalesce (getOpt s (js ''output'')) (getOpt s (js ''deliverable'')))) []\<rparr>"

text \<open>\<open>xs.map((s, i) => f(s, i))\<close>\<close>

definition mapIndexed :: "('a \<Rightarrow> nat \<Rightarrow> 'b) \<Rightarrow> 'a list \<Rightarrow> 'b list" where
  "mapIndexed f xs = map (\<lambda>(i, x). f x i) (enumerate 0 xs)"

text \<open>The step pushed while fewer than 3 steps are there, \<open>n\<close> being
  \<open>steps.length + 1\<close>.\<close>

definition emptyStep :: "nat \<Rightarrow> Step" where
  "emptyStep n =
     \<lparr>title = js ''Step '' @ natToString n, summary = [], whatThisDoes = [], howTo = [],
       output' = []\<rparr>"

function padSteps :: "Step list \<Rightarrow> Step list" where
  "padSteps ss =
     (if length ss < 3 then padSteps (ss @ [emptyStep (length ss + 1)]) else ss)"
  by pat_completeness auto
termination
  by (relation "measure (\<lambda>ss. 3 - length ss)") auto

declare padSteps.simps [simp del]

text \<open>\<open>coercePlan(raw, ideaFallback, inputsFallback)\<close>. The fresh identifier (made from
  the clock and a random number) and the current time in ISO format are the first two
  arguments.\<close>

definition coercePlan ::
  "jstring \<Rightarrow> jstring \<Rightarrow> jsval \<Rightarrow> jstring \<Rightarrow> Inputs \<Rightarrow> error + Plan" where
  "coercePlan freshId nowIso raw ideaFallback inputsFallback =
     bindE (inputsRawOf raw) (\<lambda>inputsRaw.
     bindE (stepsRawOf raw) (\<lambda>stepsRaw.
       Inr \<lparr>id' = orStr (safeStr (getOpt raw (js ''id''))) freshId,
            createdAt = orStr (safeStr (getOpt raw (js ''createdAt''))) nowIso,
            idea = orStr (safeStr (getOpt raw (js ''idea''))) ideaFallback,
            inputs =
              \<lparr>targetCustomer =
                 inputField inputsRaw raw (js ''targetCustomer'') (targetCustomer inputsFallback),
               coreOffer = inputField inputsRaw raw (js ''coreOffer'') (coreOffer inputsFallback),
               differentiator =
                 inputField inputsRaw raw (js ''differentiator'') (differentiator inputsFallback),
               pricePoint = inputField inputsRaw raw (js ''pricePoint'') (pricePoint inputsFallback),
               geography = inputField inputsRaw raw (js ''geography'') (geography inputsFallback),
               goal14Day = inputField inputsRaw raw (js ''goal14Day'') (goal14Day inputsFallback),
               notes' = inputField inputsRaw raw (js ''notes'') (notes' inputsFallback)\<rparr>,
            steps = take 3 (padSteps (mapIndexed coerceStep (take 3 stepsRaw)))\<rparr>))"


section \<open>The generation endpoint\<close>

record CalendarDay =
  cd_day :: jstring
  cd_title :: jstring
  cd_tasks :: "jstring list"

text \<open>The field \<open>inputs\<close> of the endpoint's plan is \<open>raw.inputs\<close> as it came, or the
  inputs of the request.\<close>

datatype inputs_value = RawInputs jsval | RequestInputs Inputs

record PlanObject =
  po_id :: jstring
  po_createdAt :: jstring
  po_idea :: jstring
  po_inputs :: inputs_value
  po_steps :: "Step list"
  po_calendarDays :: "CalendarDay list"

definition coerceStep_api :: "jsval \<Rightarrow> nat \<Rightarrow> Step" where
  "coerceStep_api s i =
     \<lparr>title = orStr (cleanStr (getOpt s (js ''title''))) (js ''Step '' @ natToString (i + 1)),
       summary = orStr (cleanStr (getOpt s (js ''summary''))) [],
       whatThisDoes = ensureArrayOfStrings (getOpt s (js ''whatThisDoes'')),
       howTo = ensureArrayOfStrings (getOpt s (js ''howTo'')),
       output' = orStr (cleanStr (getOpt s (js ''output''))) []\<rparr>"

text \<open>\<open>Array.isArray(raw?.calendarDays) ? raw.calendarDays : []\<close>\<close>

definition calRawOf :: "jsval \<Rightarrow> error + jsval list" where
  "calRawOf raw =
     (if isArray (getOpt raw (js ''calendarDays'')) then
        bindE (getStrict raw (js ''calendarDays'')) (\<lambda>v. Inr (arrayItems v))
      else Inr [])"

text \<open>\<open>typeof d === "object" && d\<close>\<close>

definition isObjectValue :: "jsval \<Rightarrow> bool" where
  "isObjectValue d \<longleftrightarrow> typeofObject d \<and> truthy d"

text \<open>The day number is the Number \<open>d.day\<close>, or \<open>idx + 1\<close>; either way its rendering.\<close>

definition coerceDay :: "jsval \<Rightarrow> nat \<Rightarrow> CalendarDay" where
  "coerceDay d idx =
     \<lparr>cd_day = (case getOpt d (js ''day'') of JNum n \<Rightarrow> n | _ \<Rightarrow> natToString (idx + 1)),
       cd_title = orStr (cleanStr (getOpt d (js ''title''))) (js ''Day '' @ natToString (idx + 1)),
       cd_tasks = ensureArrayOfStrings (getOpt d (js ''tasks''))\<rparr>"

text \<open>U+2013 is the dash of the default task.\<close>

definition emptyDay :: "nat \<Rightarrow> CalendarDay" where
  "emptyDay n =
     \<lparr>cd_day = natToString n, cd_title = js ''Day '' @ natToString n,
       cd_tasks =
         [js ''Do 30'' @ [0x2013] @ js ''60 minutes of execution based on your Step plan.'']\<rparr>"

function padDays :: "CalendarDay list \<Rightarrow> CalendarDay list" where
  "padDays ds =
     (if length ds < 14 then padDays (ds @ [emptyDay (length ds + 1)]) else ds)"
  by pat_completeness auto
termination
  by (relation "measure (\<lambda>ds. 14 - length ds)") auto

declare padDays.simps [simp del]

text \<open>\<open>typeof raw?.inputs === "object" && raw?.inputs ? raw.inputs : inputs\<close>\<close>

definition inputsOf_api :: "jsval \<Rightarrow> Inputs \<Rightarrow> error + inputs_value" where
  "inputsOf_api raw inputs0 =
     (if isObjectValue (getOpt raw (js ''inputs'')) then
        bindE (getStrict raw (js ''inputs'')) (\<lambda>v. Inr (RawInputs v))
      else Inr (RequestInputs inputs0))"

text \<open>\<open>coercePlan(raw, idea, inputs)\<close> of the endpoint; the first two arguments are the
  result of \<open>uid()\<close> and the current time in ISO format, \<open>idea0\<close> and \<open>inputs0\<close> are
  the parameters \<open>idea\<close> and \<open>inputs\<close>.\<close>

definition coercePlan_api ::
  "jstring \<Rightarrow> jstring \<Rightarrow> jsval \<Rightarrow> jstring \<Rightarrow> Inputs \<Rightarrow> error + PlanObject" where
  "coercePlan_api uid nowIso raw idea0 inputs0 =
     bindE (stepsRawOf raw) (\<lambda>stepsRaw.
     bindE (calRawOf raw) (\<lambda>calRaw.
     bindE (inputsOf_api raw inputs0) (\<lambda>inputsValue.
       Inr \<lparr>po_id = orStr (cleanStr (getOpt raw (js ''id''))) uid,
            po_createdAt = orStr (cleanStr (getOpt raw (js ''createdAt''))) nowIso,
            po_idea = orStr (cleanStr (getOpt raw (js ''idea''))) idea0,
            po_inputs = inputsValue,
            po_steps = padSteps (mapIndexed coerceStep_api (take 3 stepsRaw)),
            po_calendarDays =
              padDays (mapIndexed coerceDay (take 14 (filter isObjectValue calRaw)))\<rparr>)))"

text \<open>Names used in the statements about the two \<open>coercePlan\<close> functions: the entries
  of \<open>raw.steps\<close> when that is a list (no entry otherwise), and the default titles.\<close>

definition rawSteps :: "jsval \<Rightarrow> jsval list" where
  "rawSteps raw = arrayItems (getOpt raw (js ''steps''))"

definition stepTitles :: "jstring list" where
  "stepTitles = [js ''Step 1'', js ''Step 2'', js ''Step 3'']"

text \<open>Example inputs: a form with no inputs, a response with four steps (the first with a
  title to trim and its checklist as one string of two lines, the second and third not
  objects), and a response whose first step has its checklist as a string.\<close>

definition noInputs :: Inputs where
  "noInputs =
     \<lparr>targetCustomer = None, coreOffer = None, differentiator = None, pricePoint = None,
       geography = None, goal14Day = None, notes' = None\<rparr>"

definition exampleRaw :: jsval where
  "exampleRaw =
     JObj [(js ''steps'',
       JArr [JObj [(js ''title'', JStr (js '' A '')),
                   (js ''howTo'', JStr (js ''- a'' @ [0xA] @ js ''2) b''))],
             JNum (js ''5''),
             JNull,
             JObj [(js ''title'', JStr (js ''D''))]])]"

definition exampleResponse :: jsval where
  "exampleResponse =
     JObj [(js ''steps'',
       JArr [JObj [(js ''howTo'', JStr (js ''- a'' @ [0xA] @ js ''- b'')),
                   (js ''whatThisDoes'', JArr [JStr (js '' x '')])]])]"



section \<open>Persisted state\<close>

text \<open>\<open>localStorage\<close>: a map from keys to strings; \<open>getItem\<close> of a missing key is
  \<open>null\<close>, \<open>removeItem\<close> takes the key out of the map.\<close>

type_synonym storage = "jstring \<rightharpoonup> jstring"

definition LS_PLAN_KEY :: jstring where
  "LS_PLAN_KEY = js ''bsg_latest_plan_v1''"

subsection \<open>Generation on the plan page (\<open>onGenerate\<close>)\<close>

text \<open>The state of the plan page: the form (\<open>idea\<close>, \<open>inputs\<close>), the flags
  \<open>loading\<close> and \<open>error\<close>, the plan shown, and the store. \<open>error\<close> holds whatever
  \<open>setError\<close> is given.\<close>

record PageState =
  st_idea :: jstring
  st_inputs :: Inputs
  st_loading :: bool
  st_error :: jsval
  st_plan :: "Plan option"
  localStorage :: storage

text \<open>What the request comes to: \<open>fetch\<close> throws (the value is \<open>e?.message\<close>), or
  gives a response with \<open>resp.ok\<close>, \<open>resp.status\<close> and the body that \<open>resp.json()\<close>
  parses (\<open>None\<close> when it cannot be parsed).\<close>

datatype fetch_outcome =
    FetchRejected jsval
  | FetchResponse bool nat "jsval option"

text \<open>What else the environment decides during one generation: the outcome of the
  request, the fresh identifier and the time \<open>coercePlan\<close> may use, the message of a
  TypeError, and whether \<open>localStorage.setItem\<close> throws for lack of room, with the
  message of that exception.\<close>

record Env =
  fetchOutcome :: fetch_outcome
  env_freshId :: jstring
  env_nowIso :: jstring
  typeErrorMessage :: jsval
  storageFull :: bool
  quotaMessage :: jsval

text \<open>\<open>a || b\<close> on values\<close>

definition orJ :: "jsval \<Rightarrow> jsval \<Rightarrow> jsval" where
  "orJ a b = (if truthy a then a else b)"

text \<open>\<open>catch (e) { setError(e?.message || "Something went wrong.") }\<close>\<close>

definition catchError :: "jsval \<Rightarrow> PageState \<Rightarrow> PageState" where
  "catchError message st = st\<lparr>st_error := orJ message (JStr (js ''Something went wrong.''))\<rparr>"

text \<open>The body of \<open>try\<close>, for the trimmed idea; the state is that at the \<open>await\<close>.\<close>

definition tryGenerate :: "(Plan \<Rightarrow> jstring) \<Rightarrow> Env \<Rightarrow> jstring \<Rightarrow> PageState \<Rightarrow> PageState" where
  "tryGenerate stringify env ideaTrimmed st =
     (case fetchOutcome env of
        FetchRejected message \<Rightarrow> catchError message st
      | FetchResponse ok status body \<Rightarrow>
          (let data = (case body of None \<Rightarrow> JNull | Some d \<Rightarrow> d) in
           if \<not> ok \<or> \<not> truthy data then
             st\<lparr>st_error :=
                  orJ (getOpt data (js ''error''))
                    (JStr (js ''Generate failed ('' @ natToString status @ js '')''))\<rparr>
           else
             (case coercePlan (env_freshId env) (env_nowIso env) data ideaTrimmed (st_inputs st) of
                Inl e \<Rightarrow> catchError (typeErrorMessage env) st
              | Inr nextPlan \<Rightarrow>
                  (if storageFull env then
                     catchError (quotaMessage env) (st\<lparr>st_plan := Some nextPlan\<rparr>)
                   else
                     st\<lparr>st_plan := Some nextPlan,
                        localStorage := (localStorage st)(LS_PLAN_KEY \<mapsto> stringify nextPlan)\<rparr>))))"

text \<open>\<open>onGenerate\<close>, from the click to the end of \<open>finally\<close>. \<open>stringify\<close> is
  \<open>JSON.stringify\<close> on plans.\<close>

definition onGenerate :: "(Plan \<Rightarrow> jstring) \<Rightarrow> Env \<Rightarrow> PageState \<Rightarrow> PageState" where
  "onGenerate stringify env st =
     (let ideaTrimmed = trim (st_idea st) in
      if ideaTrimmed = [] then st\<lparr>st_error := JStr (js ''Type a business idea first.'')\<rparr>
      else
        (tryGenerate stringify env ideaTrimmed (st\<lparr>st_error := JStr [], st_loading := True\<rparr>))
          \<lparr>st_loading := False\<rparr>)"

text \<open>A generation that ends in failure, as the specification lists it: a thrown transport
  error, a response that is not ok, a body that cannot be parsed.\<close>

fun failed :: "fetch_outcome \<Rightarrow> bool" where
  "failed (FetchRejected message) = True"
| "failed (FetchResponse ok status body) = (\<not> ok \<or> body = None)"

subsection \<open>Completion state on the calendar page\<close>

text \<open>The state of the calendar page: \<open>plan\<close>, \<open>pid\<close>, the mapping \<open>checks\<close> from
  keys \<open>d{day}_t{idx}\<close> to booleans, and the store.\<close>

record CalendarState =
  cs_plan :: "CalPlan option"
  cs_pid :: jstring
  cs_checks :: "jstring \<rightharpoonup> bool"
  cs_storage :: storage

text \<open>The effect \<open>localStorage.setItem(checksKey(pid), JSON.stringify(checks))\<close> with
  the dependencies \<open>[checks, pid]\<close>; \<open>stringify\<close> is \<open>JSON.stringify\<close> on mappings.
  The effect runs after every render in which \<open>checks\<close> or \<open>pid\<close> is not the same as
  in the render before.\<close>

definition persistChecks ::
  "((jstring \<rightharpoonup> bool) \<Rightarrow> jstring) \<Rightarrow> CalendarState \<Rightarrow> CalendarState" where
  "persistChecks stringify st =
     st\<lparr>cs_storage := (cs_storage st)(checksKey (cs_pid st) \<mapsto> stringify (cs_checks st))\<rparr>"

text \<open>The handler \<open>resetChecks\<close>: \<open>setChecks({})\<close>, then
  \<open>localStorage.removeItem(checksKey(pid))\<close>. The result is the state in which the
  component renders next.\<close>

definition resetChecks :: "CalendarState \<Rightarrow> CalendarState" where
  "resetChecks st =
     st\<lparr>cs_checks := Map.empty,
        cs_storage := (cs_storage st)(checksKey (cs_pid st) := None)\<rparr>"

text \<open>A click on the reset button, to the end of what it sets off: the handler, then the
  render with the new \<open>checks\<close> (an object made by the handler, so never the same as the
  one before), then the effect.\<close>

definition onResetClick ::
  "((jstring \<rightharpoonup> bool) \<Rightarrow> jstring) \<Rightarrow> CalendarState \<Rightarrow> CalendarState" where
  "onResetClick stringify st = persistChecks stringify (resetChecks st)"

text \<open>\<open>toggle(day, idx)\<close>: the key, the handler's update of \<open>checks\<close>, and the click
  with the effect that follows.\<close>

definition checkKey :: "nat \<Rightarrow> nat \<Rightarrow> jstring" where
  "checkKey d idx = js ''d'' @ natToString d @ js ''_t'' @ natToString idx"

definition toggle :: "nat \<Rightarrow> nat \<Rightarrow> CalendarState \<Rightarrow> CalendarState" where
  "toggle d idx st =
     st\<lparr>cs_checks :=
          (cs_checks st)(checkKey d idx \<mapsto>
             \<not> (case cs_checks st (checkKey d idx) of None \<Rightarrow> False | Some b \<Rightarrow> b))\<rparr>"

definition onToggle ::
  "((jstring \<rightharpoonup> bool) \<Rightarrow> jstring) \<Rightarrow> nat \<Rightarrow> nat \<Rightarrow> CalendarState \<Rightarrow> CalendarState" where
  "onToggle stringify d idx st = persistChecks stringify (toggle d idx st)"

text \<open>Example states: a store with a plan and the checks of another plan; a plan page
  with an idea typed in; an environment for a given outcome of the request; a calendar
  page with one task checked and persisted.\<close>

definition exampleStore :: storage where
  "exampleStore = [LS_PLAN_KEY \<mapsto> js ''old'', checksKey (js ''plan_1'') \<mapsto> js ''{}'']"

definition examplePage :: PageState where
  "examplePage =
     \<lparr>st_idea = js '' cafe '', st_inputs = noInputs, st_loading = False, st_error = JStr [],
       st_plan = None, localStorage = exampleStore\<rparr>"

definition exampleEnv :: "fetch_outcome \<Rightarrow> Env" where
  "exampleEnv r =
     \<lparr>fetchOutcome = r, env_freshId = js ''f'', env_nowIso = js ''n'',
       typeErrorMessage = JStr (js ''t''), storageFull = False, quotaMessage = JStr (js ''q'')\<rparr>"

definition exampleCalendar :: CalendarState where
  "exampleCalendar =
     \<lparr>cs_plan = None, cs_pid = js ''plan_1'', cs_checks = [checkKey 3 1 \<mapsto> True],
       cs_storage =
         [checksKey (js ''plan_1'') \<mapsto> js ''{'' @ [0x22] @ js ''d3_t1'' @ [0x22] @ js '':true}'']\<rparr>"


section \<open>Properties\<close>

subsection \<open>Split and trim\<close>

text \<open>The lines of a split hold no separator and joined by it give the string back;
  a string is its trimmed part between two runs of white space, and that part neither
  starts nor ends with white space.\<close>

lemma splitOn_not_Nil: "splitOn sep s \<noteq> []"
  by (induction s) (auto split: list.splits)

lemma joinWith_splitOn: "joinWith sep (splitOn sep s) = s"
proof (induction s)
  case Nil
  then show ?case by simp
next
  case (Cons c cs)
  obtain l ls where e: "splitOn sep cs = l # ls"
    using splitOn_not_Nil [of sep cs] by (cases "splitOn sep cs") auto
  show ?case
  proof (cases "c = sep")
    case True
    then show ?thesis using Cons e by simp
  next
    case False
    then show ?thesis using Cons e by (cases ls) simp_all
  qed
qed

lemma splitOn_no_sep: "l \<in> set (splitOn sep s) \<Longrightarrow> sep \<notin> set l"
proof (induction s arbitrary: l)
  case Nil
  then show ?case by simp
next
  case (Cons c cs)
  then show ?case by (auto split: if_splits list.splits)
qed

lemma rev_dropWhile_takeWhile:
  "xs = rev (dropWhile P (rev xs)) @ rev (takeWhile P (rev xs))"
  by (metis rev_append rev_rev_ident takeWhile_dropWhile_id)

lemma trim_decomposition:
  "\<exists>a b. s = a @ trim s @ b \<and> (\<forall>c\<in>set a. isWhiteSpace c) \<and> (\<forall>c\<in>set b. isWhiteSpace c)"
proof -
  let ?a = "takeWhile isWhiteSpace s"
  let ?r = "dropWhile isWhiteSpace s"
  let ?b = "rev (takeWhile isWhiteSpace (rev ?r))"
  have 1: "s = ?a @ ?r" by simp
  have 2: "?r = trim s @ ?b"
    unfolding trim_def by (rule rev_dropWhile_takeWhile)
  have 3: "\<forall>c\<in>set ?a. isWhiteSpace c" by (auto dest: set_takeWhileD)
  have 4: "\<forall>c\<in>set ?b. isWhiteSpace c" by (auto dest: set_takeWhileD)
  have "s = ?a @ trim s @ ?b" using 1 2 by metis
  then show ?thesis using 3 4 by blast
qed

lemma trim_ends:
  assumes "trim s \<noteq> []"
  shows "\<not> isWhiteSpace (hd (trim s)) \<and> \<not> isWhiteSpace (last (trim s))"
proof -
  let ?r = "dropWhile isWhiteSpace s"
  let ?d = "dropWhile isWhiteSpace (rev ?r)"
  have t: "trim s = rev ?d" by (simp add: trim_def)
  have d: "?d \<noteq> []" using assms t by simp
  have l: "\<not> isWhiteSpace (hd ?d)" using d by (rule hd_dropWhile)
  then have last: "\<not> isWhiteSpace (last (trim s))" using d t by (simp add: last_rev)
  have "rev ?r \<noteq> []" using d by (metis dropWhile.simps(1))
  then have r: "?r \<noteq> []" by simp
  have h: "\<not> isWhiteSpace (hd ?r)" using r by (rule hd_dropWhile)
  have b: "?r = trim s @ rev (takeWhile isWhiteSpace (rev ?r))"
    unfolding trim_def by (rule rev_dropWhile_takeWhile)
  have "hd ?r = hd (trim s)" using b assms by (metis hd_append2)
  then show ?thesis using h last by simp
qed

subsection \<open>Plan identity\<close>

lemma ucast_unat16: "unat (ucast (c :: 16 word) :: 32 word) = unat c"
proof -
  have "unat c < 2 ^ 16" using unsigned_less [of c] by simp
  then have "unat c < 2 ^ 32" by simp
  then show ?thesis by (simp add: unsigned_ucast_eq take_bit_nat_eq_self)
qed

lemma hashLoop_unat:
  "unat (hashLoop s h) =
     foldl (\<lambda>h c. ((h XOR unat c) * 0x01000193) mod 2 ^ 32) (unat h) s"
proof (induction s arbitrary: h)
  case Nil
  then show ?case by simp
next
  case (Cons c cs)
  have "unat ((h XOR ucast c) * (16777619 :: 32 word)) =
          ((unat h XOR unat c) * 16777619) mod 2 ^ 32"
    by (simp add: unat_word_ariths unsigned_xor_eq ucast_unat16)
  then show ?case using Cons by simp
qed

lemma planId_fnv1a: "planId plan = js ''plan_'' @ toHex (fnv1a_spec (planBase plan))"
  by (simp add: planId_def fnv1a_spec_def hashLoop_unat)

lemmas planId_eval = planId_def planBase_def orOpt_def orDefault_def planOf_def js_def
  toHex.simps hexDigit_def hashLoop_unat

text \<open>
  C5, as stated, fails: the base string is chosen with \<open>||\<close>, which skips an empty
  string. Two plans with the same id \<open>""\<close> and the ideas \<open>"a"\<close> and \<open>"b"\<close> get
  different identities, and neither is the digest of the id.
\<close>

theorem planId_empty_id_counterexample:
  "id_opt (planOf (Some []) (Some (js ''a''))) = id_opt (planOf (Some []) (Some (js ''b'')))
   \<and> planId (Some (planOf (Some []) (Some (js ''a''))))
       \<noteq> planId (Some (planOf (Some []) (Some (js ''b''))))
   \<and> planId (Some (planOf (Some []) (Some (js ''a''))))
       \<noteq> js ''plan_'' @ toHex (fnv1a_spec [])"
  by (simp add: planId_eval fnv1a_spec_def)

text \<open>
  C5 (amended). \<open>planId\<close> is a function of the plan. It hashes \<open>plan.id\<close> when that is
  present and not empty, else \<open>plan.idea\<close> when that is present and not empty, else the
  literal \<open>latest\<close>; the digest is the 32-bit FNV-1a hash of the code units (start
  \<open>0x811c9dc5\<close>, per unit xor then multiply by \<open>0x01000193\<close> modulo \<open>2^32\<close>), written in
  hexadecimal after the prefix \<open>plan_\<close>. Hence two plans with the same non-empty id have
  the same identity whatever their ideas, and the ideas \<open>Coffee cart\<close> and
  \<open>Coffee Cart\<close> give different identities.
\<close>

theorem planId_identity:
  "(id_opt p = Some i \<and> i \<noteq> [] \<longrightarrow>
      planId (Some p) = js ''plan_'' @ toHex (fnv1a_spec i))
   \<and> ((id_opt p = None \<or> id_opt p = Some []) \<and> idea_opt p = Some d \<and> d \<noteq> [] \<longrightarrow>
      planId (Some p) = js ''plan_'' @ toHex (fnv1a_spec d))
   \<and> ((id_opt p = None \<or> id_opt p = Some []) \<and> (idea_opt p = None \<or> idea_opt p = Some []) \<longrightarrow>
      planId (Some p) = js ''plan_'' @ toHex (fnv1a_spec (js ''latest'')))
   \<and> planId None = js ''plan_'' @ toHex (fnv1a_spec (js ''latest''))
   \<and> (id_opt p = Some i \<and> id_opt q = Some i \<and> i \<noteq> [] \<longrightarrow>
      planId (Some p) = planId (Some q))
   \<and> planId (Some (planOf None (Some (js ''Coffee cart''))))
       \<noteq> planId (Some (planOf None (Some (js ''Coffee Cart''))))"
proof -
  have cs: "planId (Some (planOf None (Some (js ''Coffee cart''))))
       \<noteq> planId (Some (planOf None (Some (js ''Coffee Cart''))))"
    by (simp add: planId_eval)
  have rest: "id_opt p = Some i \<and> i \<noteq> [] \<longrightarrow> planBase (Some p) = i"
    "(id_opt p = None \<or> id_opt p = Some []) \<and> idea_opt p = Some d \<and> d \<noteq> [] \<longrightarrow>
       planBase (Some p) = d"
    "(id_opt p = None \<or> id_opt p = Some []) \<and> (idea_opt p = None \<or> idea_opt p = Some []) \<longrightarrow>
       planBase (Some p) = js ''latest''"
    "planBase None = js ''latest''"
    "id_opt p = Some i \<and> id_opt q = Some i \<and> i \<noteq> [] \<longrightarrow> planBase (Some p) = planBase (Some q)"
    by (auto simp: planBase_def orOpt_def orDefault_def)
  show ?thesis
    using cs rest by (simp add: planId_fnv1a)
qed

theorem planId_identity_witness:
  "planId (Some (planOf (Some (js ''x'')) (Some (js ''Coffee cart''))))
     = planId (Some (planOf (Some (js ''x'')) (Some (js ''Coffee Cart''))))
   \<and> planId (Some (planOf (Some (js ''x'')) None)) = js ''plan_fd0c5087''
   \<and> planId (Some (planOf (Some []) (Some (js ''a'')))) = js ''plan_e40c292c''
   \<and> planId (Some (planOf None None)) = js ''plan_41704246''"
proof -
  note t = planId_identity
    [of "planOf (Some (js ''x'')) (Some (js ''Coffee cart''))" "js ''x''" "js ''a''"
        "planOf (Some (js ''x'')) (Some (js ''Coffee Cart''))"]
  note u = planId_identity [of "planOf (Some (js ''x'')) None" "js ''x''" "js ''a''"]
  note v = planId_identity [of "planOf (Some []) (Some (js ''a''))" "js ''x''" "js ''a''"]
  note w = planId_identity [of "planOf None None"]
  have a: "planId (Some (planOf (Some (js ''x'')) (Some (js ''Coffee cart''))))
     = planId (Some (planOf (Some (js ''x'')) (Some (js ''Coffee Cart''))))"
  proof -
    have "id_opt (planOf (Some (js ''x'')) (Some (js ''Coffee cart''))) = Some (js ''x'')
      \<and> id_opt (planOf (Some (js ''x'')) (Some (js ''Coffee Cart''))) = Some (js ''x'')
      \<and> js ''x'' \<noteq> []"
      by (simp add: planOf_def js_def)
    with t show ?thesis by blast
  qed
  have b: "planId (Some (planOf (Some (js ''x'')) None)) = js ''plan_'' @ toHex (fnv1a_spec (js ''x''))"
    using u by (simp add: planOf_def js_def)
  have c: "planId (Some (planOf (Some []) (Some (js ''a'')))) = js ''plan_'' @ toHex (fnv1a_spec (js ''a''))"
    using v by (simp add: planOf_def js_def)
  have d: "planId (Some (planOf None None)) = js ''plan_'' @ toHex (fnv1a_spec (js ''latest''))"
    using w by (simp add: planOf_def)
  show ?thesis
    using a b c d by (simp add: fnv1a_spec_def js_def toHex.simps hexDigit_def)
qed

subsection \<open>Round-robin placement\<close>

lemma bucketIdx_0: "bucketIdx 0 D j = []"
  by (simp add: bucketIdx_def)

lemma bucketIdx_Suc: "bucketIdx (Suc i) D j = bucketIdx i D j @ (if i mod D = j then [i] else [])"
  by (simp add: bucketIdx_def)

lemma rr_step:
  assumes "0 < D"
  shows "(map (\<lambda>j. map f (bucketIdx i D j)) [0..<D])
           [i mod D := (map (\<lambda>j. map f (bucketIdx i D j)) [0..<D]) ! (i mod D) @ [f i]]
         = map (\<lambda>j. map f (bucketIdx (Suc i) D j)) [0..<D]"
  using assms by (auto simp: list_eq_iff_nth_eq nth_list_update bucketIdx_Suc)

lemma chunkLoop_inv:
  assumes "0 < D" "i \<le> length items"
  shows "chunkLoop items D i (map (\<lambda>j. map (\<lambda>k. items ! k) (bucketIdx i D j)) [0..<D])
           = Inr (roundRobin items D)"
  using assms
proof (induction "length items - i" arbitrary: i)
  case 0
  then have "i = length items" by simp
  then show ?case by (simp add: chunkLoop.simps roundRobin_def)
next
  case (Suc m)
  then have lt: "i < length items" by simp
  have md: "\<not> D \<le> i mod D" using Suc.prems by (simp add: not_le)
  have "chunkLoop items D i (map (\<lambda>j. map (\<lambda>k. items ! k) (bucketIdx i D j)) [0..<D])
      = chunkLoop items D (Suc i) (map (\<lambda>j. map (\<lambda>k. items ! k) (bucketIdx (Suc i) D j)) [0..<D])"
    using lt md Suc.prems(1) rr_step [OF Suc.prems(1), of "\<lambda>k. items ! k" i]
    by (subst chunkLoop.simps) simp
  also have "\<dots> = Inr (roundRobin items D)"
    using Suc.hyps(1) [of "Suc i"] Suc.hyps(2) Suc.prems lt by simp
  finally show ?case .
qed

lemma chunkEvenly_eq:
  assumes "0 < D"
  shows "chunkEvenly items D = Inr (roundRobin items D)"
proof (cases "items = []")
  case True
  then show ?thesis
    by (simp add: chunkEvenly_def roundRobin_def bucketIdx_0 map_replicate_const)
next
  case False
  have "replicate D [] = map (\<lambda>j. map (\<lambda>k. items ! k) (bucketIdx 0 D j)) [0..<D]"
    by (simp add: bucketIdx_0 map_replicate_const)
  then show ?thesis
    using False chunkLoop_inv [OF assms, of 0 items] by (simp add: chunkEvenly_def)
qed

lemma length_roundRobin: "length (roundRobin items D) = D"
  by (simp add: roundRobin_def)

lemma nth_roundRobin:
  "j < D \<Longrightarrow> roundRobin items D ! j = map (\<lambda>i. items ! i) (bucketIdx (length items) D j)"
  by (simp add: roundRobin_def)

lemma length_bucketIdx:
  "j < D \<Longrightarrow> length (bucketIdx N D j) = N div D + (if j < N mod D then 1 else 0)"
proof (induction N)
  case 0
  then show ?case by (simp add: bucketIdx_0)
next
  case (Suc N)
  then show ?case
    by (auto simp: bucketIdx_Suc mod_Suc div_Suc)
qed

lemma set_bucketIdx: "set (bucketIdx N D j) = {i. i < N \<and> i mod D = j}"
  by (auto simp: bucketIdx_def)

lemma distinct_bucketIdx: "distinct (bucketIdx N D j)"
  by (simp add: bucketIdx_def)

lemma sorted_bucketIdx: "sorted (bucketIdx N D j)"
  by (simp add: bucketIdx_def sorted_filter [where f = id, simplified])

lemma mset_concat_update:
  "k < length xs \<Longrightarrow> mset (concat (xs[k := xs ! k @ [a]])) = add_mset a (mset (concat xs))"
proof (induction xs arbitrary: k)
  case Nil
  then show ?case by simp
next
  case (Cons x xs)
  then show ?case by (cases k) auto
qed

lemma mset_concat_rr:
  assumes "0 < D"
  shows "mset (concat (map (\<lambda>j. map f (bucketIdx N D j)) [0..<D])) = mset (map f [0..<N])"
proof (induction N)
  case 0
  then show ?case by (simp add: bucketIdx_0)
next
  case (Suc N)
  have "mset (concat (map (\<lambda>j. map f (bucketIdx (Suc N) D j)) [0..<D]))
      = add_mset (f N) (mset (concat (map (\<lambda>j. map f (bucketIdx N D j)) [0..<D])))"
    using assms rr_step [OF assms, of f N, symmetric]
      mset_concat_update [of "N mod D" "map (\<lambda>j. map f (bucketIdx N D j)) [0..<D]" "f N"]
    by simp
  then show ?case using Suc by simp
qed

lemma mset_concat_roundRobin:
  assumes "0 < D"
  shows "mset (concat (roundRobin items D)) = mset items"
  using mset_concat_rr [OF assms, of "\<lambda>i. items ! i" "length items"]
  by (simp add: roundRobin_def map_nth)

subsection \<open>The calendar in closed form\<close>

lemma mapE_stringTrim_strings: "mapE stringTrim (map JStr xs) = Inr (map trim xs)"
  by (induction xs) (simp_all add: stringTrim_def coalesce_def)

lemma normalizeBullets_anyOf: "normalizeBullets (anyOf x) = Inr (coerceBullets x)"
proof (cases x)
  case None
  then show ?thesis by simp
next
  case (Some b)
  then show ?thesis by (cases b) (simp_all add: mapE_stringTrim_strings)
qed

lemma bulletsOf_eq: "bulletsOf step = Inr (poolOf step)"
  by (simp add: bulletsOf_def poolOf_def normalizeBullets_anyOf bindE_def)

lemma blockOf_eq:
  "blockOf plan =
     Inr [\<lparr>b_title = titleOr (stepAt (stepsOf plan) 0) (js ''Step 1: Positioning''), b_days = 4,
            b_bullets = orFallback (poolOf (stepAt (stepsOf plan) 0)) fallback1\<rparr>,
          \<lparr>b_title = titleOr (stepAt (stepsOf plan) 1) (js ''Step 2: Acquisition Sprint''), b_days = 6,
            b_bullets = orFallback (poolOf (stepAt (stepsOf plan) 1)) fallback2\<rparr>,
          \<lparr>b_title = titleOr (stepAt (stepsOf plan) 2) (js ''Step 3: Retention & Proof''), b_days = 4,
            b_bullets = orFallback (poolOf (stepAt (stepsOf plan) 2)) fallback3\<rparr>]"
  by (simp add: blockOf_def bulletsOf_eq bindE_def Let_def)

lemma dayLoop_eq:
  assumes "length buckets = b_days b" "i \<le> b_days b"
  shows "dayLoop formatDate b buckets i (ds, n) =
     Inr (ds @ map (\<lambda>k. \<lparr>day = n + (k - i), dateLabel = formatDate (n + (k - i) - 1),
                           focus = b_title b, tasks = orFallback (buckets ! k) [filler]\<rparr>)
                [i..<b_days b],
          n + (b_days b - i))"
  using assms
proof (induction "b_days b - i" arbitrary: i ds n)
  case 0
  then show ?case by (simp add: dayLoop.simps)
next
  case (Suc m)
  then have lt: "i < b_days b" by simp
  have nle: "\<not> length buckets \<le> i" using lt Suc.prems by simp
  have step: "dayLoop formatDate b buckets i (ds, n) =
      dayLoop formatDate b buckets (Suc i)
        (ds @ [\<lparr>day = n, dateLabel = formatDate (n - 1), focus = b_title b,
                 tasks = orFallback (buckets ! i) [filler]\<rparr>], Suc n)"
    using lt nle by (subst dayLoop.simps) simp
  have ih: "dayLoop formatDate b buckets (Suc i)
        (ds @ [\<lparr>day = n, dateLabel = formatDate (n - 1), focus = b_title b,
                 tasks = orFallback (buckets ! i) [filler]\<rparr>], Suc n) =
     Inr ((ds @ [\<lparr>day = n, dateLabel = formatDate (n - 1), focus = b_title b,
                 tasks = orFallback (buckets ! i) [filler]\<rparr>]) @
           map (\<lambda>k. \<lparr>day = Suc n + (k - Suc i), dateLabel = formatDate (Suc n + (k - Suc i) - 1),
                           focus = b_title b, tasks = orFallback (buckets ! k) [filler]\<rparr>)
                [Suc i..<b_days b],
          Suc n + (b_days b - Suc i))"
    using Suc.hyps(1) [of "Suc i"] Suc.hyps(2) Suc.prems lt by simp
  let ?d0 = "\<lparr>day = n, dateLabel = formatDate (n - 1), focus = b_title b,
                 tasks = orFallback (buckets ! i) [filler]\<rparr>"
  let ?F' = "\<lambda>k. \<lparr>day = Suc n + (k - Suc i), dateLabel = formatDate (Suc n + (k - Suc i) - 1),
                           focus = b_title b, tasks = orFallback (buckets ! k) [filler]\<rparr>"
  let ?F = "\<lambda>k. \<lparr>day = n + (k - i), dateLabel = formatDate (n + (k - i) - 1),
                           focus = b_title b, tasks = orFallback (buckets ! k) [filler]\<rparr>"
  have m: "map ?F' [Suc i..<b_days b] = map ?F [Suc i..<b_days b]"
    by (rule map_cong) (auto simp: Suc_diff_le)
  have u: "[i..<b_days b] = i # [Suc i..<b_days b]"
    using lt by (rule upt_conv_Cons)
  have f0: "?F i = ?d0" by simp
  have fin: "(ds @ [?d0]) @ map ?F' [Suc i..<b_days b] = ds @ map ?F [i..<b_days b]"
    unfolding m u list.map f0 by simp
  have cnt: "Suc n + (b_days b - Suc i) = n + (b_days b - i)"
    using lt by simp
  show ?case
    unfolding step ih fin cnt ..
qed

lemma block_step:
  assumes "0 < b_days b"
  shows "bindE (chunkEvenly (b_bullets b) (b_days b)) (\<lambda>buckets.
           dayLoop formatDate b buckets 0 (ds, n))
         = Inr (ds @ blockDays formatDate b n, n + b_days b)"
proof -
  have "dayLoop formatDate b (roundRobin (b_bullets b) (b_days b)) 0 (ds, n)
      = Inr (ds @ blockDays formatDate b n, n + b_days b)"
    using dayLoop_eq [of "roundRobin (b_bullets b) (b_days b)" b 0 formatDate ds n]
    by (simp add: length_roundRobin blockDays_def)
  then show ?thesis
    by (simp add: chunkEvenly_eq [OF assms] bindE_def)
qed

lemma blockLoop3:
  assumes "0 < b_days b1" "0 < b_days b2" "0 < b_days b3"
  shows "blockLoop formatDate [b1, b2, b3] ([], 1) =
     Inr (blockDays formatDate b1 1 @ blockDays formatDate b2 (1 + b_days b1)
            @ blockDays formatDate b3 (1 + b_days b1 + b_days b2),
          1 + b_days b1 + b_days b2 + b_days b3)"
proof -
  have s: "\<And>b ds n. 0 < b_days b \<Longrightarrow>
      chunkEvenly (b_bullets b) (b_days b) = Inr (roundRobin (b_bullets b) (b_days b))"
    by (rule chunkEvenly_eq)
  have d: "\<And>b ds n. dayLoop formatDate b (roundRobin (b_bullets b) (b_days b)) 0 (ds, n)
      = Inr (ds @ blockDays formatDate b n, n + b_days b)"
    using dayLoop_eq by (simp add: length_roundRobin blockDays_def)
  show ?thesis
    using assms by (simp add: s d bindE_def)
qed

lemma length_blockDays: "length (blockDays formatDate b n) = b_days b"
  by (simp add: blockDays_def)

lemma blockOf_blocks: "blockOf plan = Inr [block1 plan, block2 plan, block3 plan]"
  by (simp add: blockOf_eq block1_def block2_def block3_def)

lemma buildDays_eq:
  "buildDays formatDate plan =
     Inr (blockDays formatDate (block1 plan) 1 @ blockDays formatDate (block2 plan) 5
            @ blockDays formatDate (block3 plan) 11)"
proof -
  have d: "b_days (block1 plan) = 4" "b_days (block2 plan) = 6" "b_days (block3 plan) = 4"
    by (simp_all add: block1_def block2_def block3_def)
  have r: "blockLoop formatDate [block1 plan, block2 plan, block3 plan] ([], 1) =
     Inr (blockDays formatDate (block1 plan) 1 @ blockDays formatDate (block2 plan) 5
            @ blockDays formatDate (block3 plan) 11, 15)"
    using blockLoop3 [of "block1 plan" "block2 plan" "block3 plan" formatDate]
    by (simp add: d)
  have "buildDays formatDate plan =
      (case blockLoop formatDate [block1 plan, block2 plan, block3 plan] ([], 1) of
         Inl e \<Rightarrow> Inl e | Inr st \<Rightarrow> Inr (take 14 (fst st)))"
    unfolding buildDays_def blockOf_blocks bindE_def by (simp only: sum.case)
  also have "\<dots> = Inr (take 14 (blockDays formatDate (block1 plan) 1 @
      blockDays formatDate (block2 plan) 5 @ blockDays formatDate (block3 plan) 11))"
    unfolding r by (simp only: sum.case fst_conv)
  also have "\<dots> = Inr (blockDays formatDate (block1 plan) 1 @
      blockDays formatDate (block2 plan) 5 @ blockDays formatDate (block3 plan) 11)"
    by (simp add: length_blockDays d)
  finally show ?thesis .
qed

lemma map_day_blockDays: "map day (blockDays formatDate b n) = [n..<n + b_days b]"
  by (simp add: blockDays_def list_eq_iff_nth_eq)

lemma map_focus_blockDays: "map focus (blockDays formatDate b n) = replicate (b_days b) (b_title b)"
  by (simp add: blockDays_def list_eq_iff_nth_eq)

lemma map_tasks_blockDays:
  "map tasks (blockDays formatDate b n) =
     map (\<lambda>bkt. orFallback bkt [filler]) (roundRobin (b_bullets b) (b_days b))"
  by (simp add: blockDays_def list_eq_iff_nth_eq length_roundRobin)

lemma upt_1_15: "[1..<5] @ [5..<11] @ [11..<15] = [1..<15]"
  by (simp add: upt_rec)

text \<open>
  C1. For every plan, and for no plan, \<open>buildDays\<close> returns 14 days, numbered 1 to 14 in
  order; the focus labels are the title of the first block 4 times, then the title of the
  second 6 times, then the title of the third 4 times, whatever the plan holds.
\<close>

theorem buildDays_fourteen_days:
  "\<exists>ds. buildDays formatDate plan = Inr ds
      \<and> length ds = 14
      \<and> map day ds = [1..<15]
      \<and> map focus ds =
          replicate 4 (titleOr (stepAt (stepsOf plan) 0) (js ''Step 1: Positioning''))
          @ replicate 6 (titleOr (stepAt (stepsOf plan) 1) (js ''Step 2: Acquisition Sprint''))
          @ replicate 4 (titleOr (stepAt (stepsOf plan) 2) (js ''Step 3: Retention & Proof''))"
proof -
  let ?ds = "blockDays formatDate (block1 plan) 1 @ blockDays formatDate (block2 plan) 5
            @ blockDays formatDate (block3 plan) 11"
  have d: "b_days (block1 plan) = 4" "b_days (block2 plan) = 6" "b_days (block3 plan) = 4"
    by (simp_all add: block1_def block2_def block3_def)
  have t: "b_title (block1 plan) = titleOr (stepAt (stepsOf plan) 0) (js ''Step 1: Positioning'')"
    "b_title (block2 plan) = titleOr (stepAt (stepsOf plan) 1) (js ''Step 2: Acquisition Sprint'')"
    "b_title (block3 plan) = titleOr (stepAt (stepsOf plan) 2) (js ''Step 3: Retention & Proof'')"
    by (simp_all add: block1_def block2_def block3_def)
  have 1: "buildDays formatDate plan = Inr ?ds" by (rule buildDays_eq)
  have 2: "length ?ds = 14" by (simp add: length_blockDays d)
  have 3: "map day ?ds = [1..<15]"
    using upt_1_15 by (simp add: map_day_blockDays d)
  have 4: "map focus ?ds =
          replicate 4 (titleOr (stepAt (stepsOf plan) 0) (js ''Step 1: Positioning''))
          @ replicate 6 (titleOr (stepAt (stepsOf plan) 1) (js ''Step 2: Acquisition Sprint''))
          @ replicate 4 (titleOr (stepAt (stepsOf plan) 2) (js ''Step 3: Retention & Proof''))"
    by (simp add: map_focus_blockDays d t)
  show ?thesis using 1 2 3 4 by blast
qed

lemma roundRobin_same_length:
  assumes "length items = D"
  shows "roundRobin items D = map (\<lambda>t. [t]) items"
proof -
  have "bucketIdx D D j = [j]" if "j < D" for j
  proof -
    have "filter (\<lambda>i. i mod D = j) [0..<D] = filter (\<lambda>i. i = j) [0..<D]"
      by (rule filter_cong) auto
    also have "\<dots> = [j]"
      using that by (induction D) auto
    finally show ?thesis by (simp add: bucketIdx_def)
  qed
  then show ?thesis
    using assms by (auto simp: roundRobin_def list_eq_iff_nth_eq)
qed

lemma poolOf_None: "poolOf None = []"
  by (simp add: poolOf_def)

text \<open>
  C6. Without a plan, \<open>buildDays\<close> returns 14 days; day by day the tasks are the single
  entries of the three canned lists in order (the first list on days 1 to 4, the second on
  days 5 to 10, the third on days 11 to 14). No day has an empty task list, and the filler
  task does not occur.
\<close>

theorem buildDays_null_plan:
  "\<exists>ds. buildDays formatDate None = Inr ds
      \<and> length ds = 14
      \<and> map tasks ds = map (\<lambda>t. [t]) (fallback1 @ fallback2 @ fallback3)
      \<and> [] \<notin> set (map tasks ds)
      \<and> filler \<notin> set (concat (map tasks ds))"
proof -
  let ?ds = "blockDays formatDate (block1 None) 1 @ blockDays formatDate (block2 None) 5
            @ blockDays formatDate (block3 None) 11"
  have s: "stepAt (stepsOf None) k = None" for k
    by (simp add: stepAt_def stepsOf_def)
  have b: "b_bullets (block1 None) = fallback1" "b_bullets (block2 None) = fallback2"
    "b_bullets (block3 None) = fallback3"
    by (simp_all add: block1_def block2_def block3_def s poolOf_None orFallback_def
        fallback1_def fallback2_def fallback3_def)
  have d: "b_days (block1 None) = 4" "b_days (block2 None) = 6" "b_days (block3 None) = 4"
    by (simp_all add: block1_def block2_def block3_def)
  have l: "length fallback1 = 4" "length fallback2 = 6" "length fallback3 = 4"
    by (simp_all add: fallback1_def fallback2_def fallback3_def)
  have m: "map (\<lambda>bkt. orFallback bkt [filler]) (map (\<lambda>t. [t]) xs) = map (\<lambda>t. [t]) xs" for xs
    by (simp add: orFallback_def)
  have 1: "buildDays formatDate None = Inr ?ds" by (rule buildDays_eq)
  have 2: "length ?ds = 14" by (simp add: length_blockDays d)
  have 3: "map tasks ?ds = map (\<lambda>t. [t]) (fallback1 @ fallback2 @ fallback3)"
    by (simp add: map_tasks_blockDays b d roundRobin_same_length l orFallback_def)
  have 4: "[] \<notin> set (map tasks ?ds)"
    unfolding 3 by auto
  have 5: "filler \<notin> set (concat (map tasks ?ds))"
    unfolding 3 by (simp add: fallback1_def fallback2_def fallback3_def filler_def js_def)
  show ?thesis using 1 2 3 4 5 by blast
qed

subsection \<open>Bucket sizes and the tasks of a step\<close>

lemma empty_bucket_iff:
  assumes "j < D"
  shows "(roundRobin items D ! j = []) = (length items \<le> j)"
proof -
  have "(roundRobin items D ! j = []) = (length (bucketIdx (length items) D j) = 0)"
    using assms by (simp add: nth_roundRobin)
  also have "\<dots> = (length items \<le> j)"
  proof (cases "length items < D")
    case True
    then show ?thesis using assms by (simp add: length_bucketIdx)
  next
    case False
    then have "0 < length items div D" using assms by (simp add: div_greater_zero_iff)
    then show ?thesis using assms False by (simp add: length_bucketIdx)
  qed
  finally show ?thesis .
qed

lemma ceil_div:
  assumes "0 < D"
  shows "(N + D - Suc 0) div D = N div D + (if N mod D = 0 then 0 else 1)"
proof -
  define q where "q = N div D"
  define r where "r = N mod D"
  have N: "N = q * D + r" and r: "r < D"
    using assms by (simp_all add: q_def r_def)
  have D: "D \<noteq> 0" using assms by simp
  show ?thesis
  proof (cases "r = 0")
    case True
    have "N + D - Suc 0 = q * D + (D - Suc 0)" using N True assms by simp
    moreover have "(q * D + (D - Suc 0)) div D = q + (D - Suc 0) div D"
      using D by (rule div_mult_self3)
    moreover have "(D - Suc 0) div D = 0" using assms by simp
    ultimately have "(N + D - Suc 0) div D = q" by simp
    then show ?thesis using True by (simp only: q_def r_def) simp
  next
    case False
    have "N + D - Suc 0 = (q + 1) * D + (r - Suc 0)" using N False by simp
    moreover have "((q + 1) * D + (r - Suc 0)) div D = (q + 1) + (r - Suc 0) div D"
      using D by (rule div_mult_self3)
    moreover have "(r - Suc 0) div D = 0" using r by simp
    ultimately have "(N + D - Suc 0) div D = q + 1" by simp
    then show ?thesis using False by (simp only: q_def r_def) simp
  qed
qed

lemma bucket_sizes:
  assumes "j < D"
  shows "length (roundRobin items D ! j) = length items div D
       \<or> length (roundRobin items D ! j) = (length items + D - 1) div D"
proof -
  have "0 < D" using assms by simp
  then show ?thesis
    using assms by (auto simp: nth_roundRobin length_bucketIdx ceil_div)
qed

lemma bucket_sizes_differ:
  assumes "j < D" "k < D"
  shows "length (roundRobin items D ! j) \<le> length (roundRobin items D ! k) + 1"
  using assms by (simp add: nth_roundRobin length_bucketIdx)

lemma buildDays_step_tasks:
  assumes "k < 3" "bulletsOf (stepAt (stepsOf plan) k) = Inr pool"
  shows "\<exists>ds. buildDays formatDate plan = Inr ds
      \<and> length ds = 14
      \<and> map tasks (take (allocation ! k) (drop (firstDay ! k) ds)) =
          map (\<lambda>bkt. orFallback bkt [filler])
            (roundRobin (orFallback pool (fallbacks ! k)) (allocation ! k))"
proof -
  let ?ds = "blockDays formatDate (block1 plan) 1 @ blockDays formatDate (block2 plan) 5
            @ blockDays formatDate (block3 plan) 11"
  have p: "pool = poolOf (stepAt (stepsOf plan) k)"
    using assms(2) by (simp add: bulletsOf_eq)
  have d: "b_days (block1 plan) = 4" "b_days (block2 plan) = 6" "b_days (block3 plan) = 4"
    by (simp_all add: block1_def block2_def block3_def)
  have l: "length (blockDays formatDate (block1 plan) 1) = 4"
    "length (blockDays formatDate (block2 plan) 5) = 6"
    "length (blockDays formatDate (block3 plan) 11) = 4"
    by (simp_all add: length_blockDays d)
  have 1: "buildDays formatDate plan = Inr ?ds" by (rule buildDays_eq)
  have 2: "length ?ds = 14" by (simp add: length_blockDays d)
  consider "k = 0" | "k = 1" | "k = 2" using assms(1) by linarith
  then have 3: "map tasks (take (allocation ! k) (drop (firstDay ! k) ?ds)) =
          map (\<lambda>bkt. orFallback bkt [filler])
            (roundRobin (orFallback pool (fallbacks ! k)) (allocation ! k))"
  proof cases
    case 1
    then show ?thesis
      by (simp add: allocation_def firstDay_def fallbacks_def length_blockDays p map_tasks_blockDays d block1_def)
  next
    case 2
    then show ?thesis
      by (simp add: allocation_def firstDay_def fallbacks_def length_blockDays p map_tasks_blockDays d block2_def)
  next
    case 3
    then show ?thesis
      by (simp add: allocation_def firstDay_def fallbacks_def length_blockDays p map_tasks_blockDays d block3_def)
  qed
  show ?thesis using 1 2 3 by blast
qed

text \<open>
  C2. The pool of a step is its coerced \<open>howTo\<close> list followed by its coerced
  \<open>whatThisDoes\<close> list. For \<open>D > 0\<close> buckets \<open>chunkEvenly\<close> returns \<open>D\<close> buckets,
  bucket \<open>j\<close> holding the items of index \<open>i\<close> with \<open>i mod D = j\<close> in the order of the
  list: every index is in exactly the bucket \<open>i mod D\<close>, the buckets together hold the
  items of the list with their multiplicities, every bucket has \<open>N div D\<close> or
  \<open>(N + D - 1) div D\<close> items, and two buckets differ by at most one item. In
  \<open>buildDays\<close> a non-empty pool of step \<open>k\<close> is placed this way on the days of that
  step.
\<close>

theorem chunkEvenly_round_robin:
  assumes "0 < D"
  shows
    "(\<exists>a b. normalizeBullets (anyOf (howTo_opt s)) = Inr a
         \<and> normalizeBullets (anyOf (whatThisDoes_opt s)) = Inr b
         \<and> bulletsOf (Some s) = Inr (a @ b))
     \<and> chunkEvenly items D = Inr (roundRobin items D)
     \<and> length (roundRobin items D) = D
     \<and> (\<forall>j<D. roundRobin items D ! j =
            map (\<lambda>i. items ! i) (filter (\<lambda>i. i mod D = j) [0..<length items]))
     \<and> (\<forall>i<length items. \<forall>j<D.
            (i \<in> set (filter (\<lambda>i. i mod D = j) [0..<length items])) = (j = i mod D))
     \<and> mset (concat (roundRobin items D)) = mset items
     \<and> (\<forall>j<D. length (roundRobin items D ! j) = length items div D
            \<or> length (roundRobin items D ! j) = (length items + D - 1) div D)
     \<and> (\<forall>j<D. \<forall>k<D.
            length (roundRobin items D ! j) \<le> length (roundRobin items D ! k) + 1)
     \<and> (k < 3 \<and> bulletsOf (stepAt (stepsOf plan) k) = Inr pool \<and> pool \<noteq> [] \<longrightarrow>
          (\<exists>ds. buildDays formatDate plan = Inr ds
             \<and> map tasks (take (allocation ! k) (drop (firstDay ! k) ds)) =
                 map (\<lambda>bkt. if bkt = [] then [filler] else bkt)
                   (roundRobin pool (allocation ! k))))"
proof -
  have 1: "\<exists>a b. normalizeBullets (anyOf (howTo_opt s)) = Inr a
         \<and> normalizeBullets (anyOf (whatThisDoes_opt s)) = Inr b
         \<and> bulletsOf (Some s) = Inr (a @ b)"
    by (simp add: normalizeBullets_anyOf bulletsOf_eq poolOf_def)
  have 2: "chunkEvenly items D = Inr (roundRobin items D)"
    using assms by (rule chunkEvenly_eq)
  have 3: "length (roundRobin items D) = D"
    by (rule length_roundRobin)
  have 4: "\<forall>j<D. roundRobin items D ! j =
            map (\<lambda>i. items ! i) (filter (\<lambda>i. i mod D = j) [0..<length items])"
    by (simp add: nth_roundRobin bucketIdx_def)
  have 5: "\<forall>i<length items. \<forall>j<D.
            (i \<in> set (filter (\<lambda>i. i mod D = j) [0..<length items])) = (j = i mod D)"
    by auto
  have 6: "mset (concat (roundRobin items D)) = mset items"
    using assms by (rule mset_concat_roundRobin)
  have 7: "\<forall>j<D. length (roundRobin items D ! j) = length items div D
            \<or> length (roundRobin items D ! j) = (length items + D - 1) div D"
    using bucket_sizes [of _ D items] by simp
  have 8: "\<forall>j<D. \<forall>k<D.
            length (roundRobin items D ! j) \<le> length (roundRobin items D ! k) + 1"
    using bucket_sizes_differ [of _ D _ items] by simp
  have 9: "k < 3 \<and> bulletsOf (stepAt (stepsOf plan) k) = Inr pool \<and> pool \<noteq> [] \<longrightarrow>
          (\<exists>ds. buildDays formatDate plan = Inr ds
             \<and> map tasks (take (allocation ! k) (drop (firstDay ! k) ds)) =
                 map (\<lambda>bkt. if bkt = [] then [filler] else bkt)
                   (roundRobin pool (allocation ! k)))"
  proof
    assume h: "k < 3 \<and> bulletsOf (stepAt (stepsOf plan) k) = Inr pool \<and> pool \<noteq> []"
    then have o: "orFallback pool (fallbacks ! k) = pool"
      by (simp add: orFallback_def)
    have f: "(\<lambda>bkt. orFallback bkt [filler]) = (\<lambda>bkt. if bkt = [] then [filler] else bkt)"
      by (auto simp: orFallback_def)
    from h buildDays_step_tasks [of k plan pool formatDate]
    show "\<exists>ds. buildDays formatDate plan = Inr ds
             \<and> map tasks (take (allocation ! k) (drop (firstDay ! k) ds)) =
                 map (\<lambda>bkt. if bkt = [] then [filler] else bkt)
                   (roundRobin pool (allocation ! k))"
      unfolding o f by blast
  qed
  show ?thesis
    using 1 2 3 4 5 6 7 8 9 by blast
qed

lemmas bullets_eval = bulletsOf_def bindE_def stepAt_def stepsOf_def examplePlan_def
  exampleStep_def stringTrim_def coalesce_def trim_def isWhiteSpace_def js_def

theorem chunkEvenly_round_robin_witness:
  "bulletsOf (Some (exampleStep [js ''a'', js ''b'', js ''c''] [js ''d'', js ''e'']))
     = Inr [js ''a'', js ''b'', js ''c'', js ''d'', js ''e'']
   \<and> chunkEvenly [js ''a'', js ''b'', js ''c'', js ''d'', js ''e''] 4
     = Inr [[js ''a'', js ''e''], [js ''b''], [js ''c''], [js ''d'']]
   \<and> (\<exists>ds. buildDays natToString
          (Some (examplePlan [exampleStep [js ''a'', js ''b'', js ''c''] [js ''d'', js ''e'']]))
            = Inr ds
        \<and> map tasks (take 4 ds) = [[js ''a'', js ''e''], [js ''b''], [js ''c''], [js ''d'']])"
proof -
  let ?s = "exampleStep [js ''a'', js ''b'', js ''c''] [js ''d'', js ''e'']"
  let ?items = "[js ''a'', js ''b'', js ''c'', js ''d'', js ''e'']"
  let ?plan = "Some (examplePlan [?s])"
  have h: "0 < (4::nat)" by simp
  have hyp: "(0::nat) < 3 \<and> bulletsOf (stepAt (stepsOf ?plan) 0) = Inr ?items \<and> ?items \<noteq> []"
    by (simp add: bullets_eval)
  note t = chunkEvenly_round_robin [OF h, where s = ?s and items = ?items and k = 0
      and plan = ?plan and pool = ?items and formatDate = natToString]
  have rr: "roundRobin ?items 4 = [[js ''a'', js ''e''], [js ''b''], [js ''c''], [js ''d'']]"
    by (simp add: roundRobin_def bucketIdx_def upt_rec)
  from t obtain a b where ab: "normalizeBullets (anyOf (howTo_opt ?s)) = Inr a"
    "normalizeBullets (anyOf (whatThisDoes_opt ?s)) = Inr b" "bulletsOf (Some ?s) = Inr (a @ b)"
    by blast
  have "a = [js ''a'', js ''b'', js ''c'']" "b = [js ''d'', js ''e'']"
    using ab(1,2) by (simp_all add: bullets_eval)
  then have 1: "bulletsOf (Some ?s) = Inr ?items"
    using ab(3) by simp
  from t have 2: "chunkEvenly ?items 4 = Inr (roundRobin ?items 4)"
    by blast
  from t hyp have "\<exists>ds. buildDays natToString ?plan = Inr ds
             \<and> map tasks (take (allocation ! 0) (drop (firstDay ! 0) ds)) =
                 map (\<lambda>bkt. if bkt = [] then [filler] else bkt)
                   (roundRobin ?items (allocation ! 0))"
    by blast
  then have 3: "\<exists>ds. buildDays natToString ?plan = Inr ds
        \<and> map tasks (take 4 ds) = [[js ''a'', js ''e''], [js ''b''], [js ''c''], [js ''d'']]"
    by (simp add: allocation_def firstDay_def rr)
  show ?thesis
    using 1 2 3 by (simp only: rr) 
qed

text \<open>
  C7. On the days of step \<open>k\<close>, a day whose bucket is empty has the filler as its only
  task, and every other day has its bucket; bucket \<open>j\<close> is empty exactly when the list
  distributed has at most \<open>j\<close> items. With a pool of 3 items for the second step (6
  days), days 5, 6, 7 hold the items 0, 1, 2, one each, and days 8, 9, 10 hold the filler.
\<close>

theorem buildDays_filler:
  assumes "k < 3" "bulletsOf (stepAt (stepsOf plan) k) = Inr pool"
  shows "\<exists>ds. buildDays formatDate plan = Inr ds
     \<and> (\<forall>j < allocation ! k.
          tasks (ds ! (firstDay ! k + j)) =
            (if roundRobin (orFallback pool (fallbacks ! k)) (allocation ! k) ! j = []
             then [filler]
             else roundRobin (orFallback pool (fallbacks ! k)) (allocation ! k) ! j))
     \<and> (\<forall>j < allocation ! k.
          (roundRobin (orFallback pool (fallbacks ! k)) (allocation ! k) ! j = [])
            = (length (orFallback pool (fallbacks ! k)) \<le> j))
     \<and> (k = 1 \<and> length pool = 3 \<longrightarrow>
          map tasks (take 6 (drop 4 ds)) =
            [[pool ! 0], [pool ! 1], [pool ! 2], [filler], [filler], [filler]])"
proof -
  let ?B = "orFallback pool (fallbacks ! k)"
  let ?D = "allocation ! k"
  let ?F = "firstDay ! k"
  from buildDays_step_tasks [OF assms, of formatDate]
  obtain ds where ds: "buildDays formatDate plan = Inr ds" "length ds = 14"
    "map tasks (take ?D (drop ?F ds)) = map (\<lambda>bkt. orFallback bkt [filler]) (roundRobin ?B ?D)"
    by blast
  have bound: "?F + ?D \<le> 14"
  proof -
    consider "k = 0" | "k = 1" | "k = 2" using assms(1) by linarith
    then show ?thesis by cases (simp_all add: allocation_def firstDay_def)
  qed
  have a: "tasks (ds ! (?F + j)) =
            (if roundRobin ?B ?D ! j = [] then [filler] else roundRobin ?B ?D ! j)"
    if "j < ?D" for j
  proof -
    have "map tasks (take ?D (drop ?F ds)) ! j = tasks (ds ! (?F + j))"
      using that bound ds(2) by simp
    moreover have "map (\<lambda>bkt. orFallback bkt [filler]) (roundRobin ?B ?D) ! j
        = orFallback (roundRobin ?B ?D ! j) [filler]"
      using that by (simp add: length_roundRobin)
    ultimately show ?thesis using ds(3) by (simp add: orFallback_def)
  qed
  have b: "(roundRobin ?B ?D ! j = []) = (length ?B \<le> j)" if "j < ?D" for j
    using that by (rule empty_bucket_iff)
  have c: "map tasks (take 6 (drop 4 ds)) =
            [[pool ! 0], [pool ! 1], [pool ! 2], [filler], [filler], [filler]]"
    if "k = 1 \<and> length pool = 3"
  proof -
    have ne: "pool \<noteq> []" using that by auto
    have "roundRobin pool 6 = [[pool ! 0], [pool ! 1], [pool ! 2], [], [], []]"
      using that by (simp add: roundRobin_def bucketIdx_def upt_rec numeral_2_eq_2)
    then show ?thesis
      using ds(3) that ne by (simp add: allocation_def firstDay_def orFallback_def)
  qed
  have A: "\<forall>j < ?D. tasks (ds ! (?F + j)) =
            (if roundRobin ?B ?D ! j = [] then [filler] else roundRobin ?B ?D ! j)"
    using a by blast
  have B: "\<forall>j < ?D. (roundRobin ?B ?D ! j = []) = (length ?B \<le> j)"
    using b by blast
  have C: "k = 1 \<and> length pool = 3 \<longrightarrow>
          map tasks (take 6 (drop 4 ds)) =
            [[pool ! 0], [pool ! 1], [pool ! 2], [filler], [filler], [filler]]"
    using c by blast
  show ?thesis
    by (rule exI [of _ ds]) (intro conjI ds(1) A B C)
qed

theorem buildDays_filler_witness:
  "\<exists>ds. buildDays natToString
          (Some (examplePlan [exampleStep [] [], exampleStep [js ''a'', js ''b''] [js ''c'']]))
            = Inr ds
      \<and> map tasks (take 6 (drop 4 ds)) =
            [[js ''a''], [js ''b''], [js ''c''], [filler], [filler], [filler]]
      \<and> tasks (ds ! 7) = [filler]"
proof -
  let ?plan = "Some (examplePlan [exampleStep [] [], exampleStep [js ''a'', js ''b''] [js ''c'']])"
  let ?pool = "[js ''a'', js ''b'', js ''c'']"
  have h1: "(1::nat) < 3" by simp
  have h2: "bulletsOf (stepAt (stepsOf ?plan) 1) = Inr ?pool"
    by (simp add: bullets_eval)
  from buildDays_filler [OF h1 h2, of natToString]
  obtain ds where ds: "buildDays natToString ?plan = Inr ds"
    "\<forall>j < allocation ! 1.
          tasks (ds ! (firstDay ! 1 + j)) =
            (if roundRobin (orFallback ?pool (fallbacks ! 1)) (allocation ! 1) ! j = []
             then [filler]
             else roundRobin (orFallback ?pool (fallbacks ! 1)) (allocation ! 1) ! j)"
    "\<forall>j < allocation ! 1.
          (roundRobin (orFallback ?pool (fallbacks ! 1)) (allocation ! 1) ! j = [])
            = (length (orFallback ?pool (fallbacks ! 1)) \<le> j)"
    "(1::nat) = 1 \<and> length ?pool = 3 \<longrightarrow>
          map tasks (take 6 (drop 4 ds)) =
            [[?pool ! 0], [?pool ! 1], [?pool ! 2], [filler], [filler], [filler]]"
    by (elim exE conjE) (rule that, assumption+)
  have 1: "map tasks (take 6 (drop 4 ds)) =
            [[js ''a''], [js ''b''], [js ''c''], [filler], [filler], [filler]]"
    using ds(4) by simp
  have "(3::nat) < allocation ! 1" by (simp add: allocation_def)
  with ds(2,3) have "tasks (ds ! (firstDay ! 1 + 3)) = [filler]"
    by (simp add: orFallback_def)
  then have 2: "tasks (ds ! 7) = [filler]"
    by (simp add: firstDay_def)
  show ?thesis
    by (rule exI [of _ ds]) (intro conjI ds(1) 1 2)
qed

subsection \<open>The two plan coercions\<close>

lemma getStrict_truthy: "truthy (getOpt raw k) \<Longrightarrow> getStrict raw k = Inr (getOpt raw k)"
  by (cases raw) simp_all

lemma getStrict_isArray: "isArray (getOpt raw k) \<Longrightarrow> getStrict raw k = Inr (getOpt raw k)"
  by (cases raw) simp_all

lemma getStrict_typeofObject:
  "typeofObject (getOpt raw k) \<Longrightarrow> getStrict raw k = Inr (getOpt raw k)"
  by (cases raw) simp_all

lemma inputsRawOf_eq:
  "inputsRawOf raw =
     Inr (if truthy (getOpt raw (js ''inputs'')) \<and> typeofObject (getOpt raw (js ''inputs''))
          then getOpt raw (js ''inputs'') else JObj [])"
  by (simp add: inputsRawOf_def bindE_def getStrict_truthy)

lemma arrayItems_not_array: "\<not> isArray v \<Longrightarrow> arrayItems v = []"
  by (cases v) simp_all

lemma stepsRawOf_eq: "stepsRawOf raw = Inr (arrayItems (getOpt raw (js ''steps'')))"
  by (simp add: stepsRawOf_def bindE_def getStrict_isArray arrayItems_not_array)

lemma mapIndexed_eq: "mapIndexed f xs = map (\<lambda>i. f (xs ! i) i) [0..<length xs]"
proof (rule nth_equalityI)
  show "length (mapIndexed f xs) = length (map (\<lambda>i. f (xs ! i) i) [0..<length xs])"
    by (simp add: mapIndexed_def)
next
  fix i assume "i < length (mapIndexed f xs)"
  then have "i < length xs" by (simp add: mapIndexed_def)
  then show "mapIndexed f xs ! i = map (\<lambda>i. f (xs ! i) i) [0..<length xs] ! i"
    by (simp add: mapIndexed_def nth_enumerate_eq)
qed

lemma padSteps_full: "3 \<le> length ss \<Longrightarrow> padSteps ss = ss"
  by (subst padSteps.simps) simp

lemma padSteps_eq:
  "length ss \<le> 3 \<Longrightarrow> padSteps ss = ss @ map emptyStep [length ss + 1..<4]"
proof (induction "3 - length ss" arbitrary: ss)
  case 0
  then show ?case by (simp add: padSteps_full)
next
  case (Suc m)
  then have lt: "length ss < 3" by simp
  have "padSteps ss = padSteps (ss @ [emptyStep (length ss + 1)])"
    using lt by (subst padSteps.simps) simp
  also have "\<dots> = (ss @ [emptyStep (length ss + 1)]) @ map emptyStep [length ss + 2..<4]"
    using Suc.hyps(1) [of "ss @ [emptyStep (length ss + 1)]"] Suc.hyps(2) lt by simp
  also have "\<dots> = ss @ map emptyStep [length ss + 1..<4]"
    using lt by (simp add: upt_conv_Cons)
  finally show ?case .
qed

lemma padded_steps:
  "padSteps (mapIndexed f (take 3 rs)) =
     map (\<lambda>i. if i < length rs then f (rs ! i) i else emptyStep (i + 1)) [0..<3]"
proof -
  let ?n = "min (length rs) 3"
  let ?cs = "mapIndexed f (take 3 rs)"
  have len: "length ?cs = ?n" by (simp add: mapIndexed_eq)
  have p: "padSteps ?cs = ?cs @ map emptyStep [?n + 1..<4]"
    using padSteps_eq [of ?cs] len by simp
  have l3: "length (?cs @ map emptyStep [?n + 1..<4]) = 3"
    using len by auto
  have "?cs @ map emptyStep [?n + 1..<4] =
     map (\<lambda>i. if i < length rs then f (rs ! i) i else emptyStep (i + 1)) [0..<3]"
  proof (rule nth_equalityI)
    show "length (?cs @ map emptyStep [?n + 1..<4]) =
      length (map (\<lambda>i. if i < length rs then f (rs ! i) i else emptyStep (i + 1)) [0..<3])"
      using l3 by simp
  next
    fix i assume "i < length (?cs @ map emptyStep [?n + 1..<4])"
    then have i: "i < 3" using l3 by simp
    show "(?cs @ map emptyStep [?n + 1..<4]) ! i =
      map (\<lambda>i. if i < length rs then f (rs ! i) i else emptyStep (i + 1)) [0..<3] ! i"
    proof (cases "i < length rs")
      case True
      then have "i < ?n" using i by simp
      then show ?thesis using True i len
        by (simp add: nth_append mapIndexed_eq)
    next
      case False
      then have "\<not> i < ?n" by simp
      then show ?thesis using False i len
        by (simp add: nth_append)
    qed
  qed
  then show ?thesis using p by simp
qed

lemma coercePlan_steps:
  "\<exists>p. coercePlan freshId nowIso raw ideaFallback inputsFallback = Inr p
     \<and> steps p =
         map (\<lambda>i. if i < length (rawSteps raw) then coerceStep (rawSteps raw ! i) i
                   else emptyStep (i + 1)) [0..<3]"
  by (simp add: coercePlan_def inputsRawOf_eq stepsRawOf_eq bindE_def padded_steps rawSteps_def
      del: upt_Suc)

lemma calRawOf_eq: "calRawOf raw = Inr (arrayItems (getOpt raw (js ''calendarDays'')))"
  by (simp add: calRawOf_def bindE_def getStrict_isArray arrayItems_not_array)

lemma inputsOf_api_eq:
  "inputsOf_api raw inputs0 =
     Inr (if isObjectValue (getOpt raw (js ''inputs'')) then RawInputs (getOpt raw (js ''inputs''))
          else RequestInputs inputs0)"
  by (simp add: inputsOf_api_def bindE_def isObjectValue_def getStrict_truthy)

lemma coercePlan_api_steps:
  "\<exists>p. coercePlan_api uid nowIso raw idea0 inputs0 = Inr p
     \<and> po_steps p =
         map (\<lambda>i. if i < length (rawSteps raw) then coerceStep_api (rawSteps raw ! i) i
                   else emptyStep (i + 1)) [0..<3]"
  by (simp add: coercePlan_api_def stepsRawOf_eq calRawOf_eq inputsOf_api_eq bindE_def
      padded_steps rawSteps_def del: upt_Suc)

lemma step_names:
  "js ''Step '' @ natToString 1 = js ''Step 1''"
  "js ''Step '' @ natToString 2 = js ''Step 2''"
  "js ''Step '' @ natToString 3 = js ''Step 3''"
  by (simp_all add: natToString.simps digit_def js_def)

lemma emptyStep_title: "i < 3 \<Longrightarrow> js ''Step '' @ natToString (i + 1) = stepTitles ! i"
proof -
  assume "i < 3"
  then consider "i = 0" | "i = 1" | "i = 2" by linarith
  then show ?thesis
    by cases (simp_all add: stepTitles_def natToString.simps digit_def js_def)
qed

text \<open>
  C3. For every value \<open>raw\<close>, \<open>coercePlan\<close> of the plan page returns a plan, never an
  error, and the plan has exactly 3 steps: step \<open>i\<close> is the coercion of entry \<open>i\<close> of
  \<open>raw.steps\<close> when that is a list with such an entry (its title the trimmed title of
  the entry, or \<open>Step i+1\<close> when that is missing, not a string or blank), and the empty
  step titled \<open>Step i+1\<close> otherwise. Entries after the third do not occur in the result.
\<close>

theorem coercePlan_three_steps:
  "\<exists>p. coercePlan freshId nowIso raw ideaFallback inputsFallback = Inr p
     \<and> length (steps p) = 3
     \<and> steps p =
         map (\<lambda>i. if i < length (rawSteps raw) then coerceStep (rawSteps raw ! i) i
                   else emptyStep (i + 1)) [0..<3]
     \<and> (\<forall>i<3. title (steps p ! i) =
           (if i < length (rawSteps raw) \<and> safeStr (getOpt (rawSteps raw ! i) (js ''title'')) \<noteq> []
            then safeStr (getOpt (rawSteps raw ! i) (js ''title''))
            else stepTitles ! i))
     \<and> (\<forall>i<3. length (rawSteps raw) \<le> i \<longrightarrow>
           steps p ! i =
             \<lparr>title = stepTitles ! i, summary = [], whatThisDoes = [], howTo = [],
               output' = []\<rparr>)"
proof -
  let ?rs = "rawSteps raw"
  from coercePlan_steps [of freshId nowIso raw ideaFallback inputsFallback]
  obtain p where p: "coercePlan freshId nowIso raw ideaFallback inputsFallback = Inr p"
    and s: "steps p =
         map (\<lambda>i. if i < length ?rs then coerceStep (?rs ! i) i else emptyStep (i + 1)) [0..<3]"
    by (elim exE conjE)
  have l: "length (steps p) = 3" by (simp add: s)
  have n: "steps p ! i = (if i < length ?rs then coerceStep (?rs ! i) i else emptyStep (i + 1))"
    if "i < 3" for i
    using that by (simp add: s del: upt_Suc)
  have t: "\<forall>i<3. title (steps p ! i) =
           (if i < length ?rs \<and> safeStr (getOpt (?rs ! i) (js ''title'')) \<noteq> []
            then safeStr (getOpt (?rs ! i) (js ''title''))
            else stepTitles ! i)"
    using emptyStep_title by (simp add: n coerceStep_def emptyStep_def orStr_def)
  have e: "\<forall>i<3. length ?rs \<le> i \<longrightarrow>
           steps p ! i =
             \<lparr>title = stepTitles ! i, summary = [], whatThisDoes = [], howTo = [],
               output' = []\<rparr>"
    using emptyStep_title by (simp add: n emptyStep_def)
  show ?thesis
    by (rule exI [of _ p]) (intro conjI p l s t e)
qed

lemmas coerce_eval = rawSteps_def coerceStep_def emptyStep_def orStr_def coalesce_def
  coerceLines_def splitLines_def replaceMarker_def isMarker_def trim_def isWhiteSpace_def
  js_def natToString.simps digit_def stepTitles_def

theorem coercePlan_three_steps_witness:
  "(\<exists>p. coercePlan (js ''f'') (js ''n'') exampleRaw (js ''i'') noInputs = Inr p
      \<and> length (steps p) = 3
      \<and> map title (steps p) = [js ''A'', js ''Step 2'', js ''Step 3'']
      \<and> howTo (steps p ! 0) = [js ''a'', js ''b''])
   \<and> (\<exists>p. coercePlan (js ''f'') (js ''n'') JNull (js ''i'') noInputs = Inr p
      \<and> length (steps p) = 3
      \<and> steps p ! 2 =
          \<lparr>title = js ''Step 3'', summary = [], whatThisDoes = [], howTo = [], output' = []\<rparr>)"
proof -
  from coercePlan_three_steps [of "js ''f''" "js ''n''" exampleRaw "js ''i''" noInputs]
  obtain p where p: "coercePlan (js ''f'') (js ''n'') exampleRaw (js ''i'') noInputs = Inr p"
    and l: "length (steps p) = 3"
    and s: "steps p =
         map (\<lambda>i. if i < length (rawSteps exampleRaw) then coerceStep (rawSteps exampleRaw ! i) i
                   else emptyStep (i + 1)) [0..<3]"
    and t: "\<forall>i<3. title (steps p ! i) =
           (if i < length (rawSteps exampleRaw)
               \<and> safeStr (getOpt (rawSteps exampleRaw ! i) (js ''title'')) \<noteq> []
            then safeStr (getOpt (rawSteps exampleRaw ! i) (js ''title''))
            else stepTitles ! i)"
    by (elim exE conjE)
  have t0: "title (steps p ! 0) = js ''A''"
    using t [rule_format, of 0] by (simp add: exampleRaw_def coerce_eval)
  have t1: "title (steps p ! 1) = js ''Step 2''"
    using t [rule_format, of 1] by (simp add: exampleRaw_def coerce_eval)
  have t2: "title (steps p ! 2) = js ''Step 3''"
    using t [rule_format, of 2] by (simp add: exampleRaw_def coerce_eval)
  have a: "map title (steps p) = [js ''A'', js ''Step 2'', js ''Step 3'']"
  proof (rule nth_equalityI)
    show "length (map title (steps p)) = length [js ''A'', js ''Step 2'', js ''Step 3'']"
      using l by simp
  next
    fix i assume "i < length (map title (steps p))"
    then have "i < 3" using l by simp
    then consider "i = 0" | "i = 1" | "i = 2" by linarith
    then show "map title (steps p) ! i = [js ''A'', js ''Step 2'', js ''Step 3''] ! i"
      using l t0 t1 t2 by cases simp_all
  qed
  have b: "howTo (steps p ! 0) = [js ''a'', js ''b'']"
    unfolding s by (simp add: exampleRaw_def coerce_eval upt_rec)
  from coercePlan_three_steps [of "js ''f''" "js ''n''" JNull "js ''i''" noInputs]
  obtain q where q: "coercePlan (js ''f'') (js ''n'') JNull (js ''i'') noInputs = Inr q"
    and m: "length (steps q) = 3"
    and e: "\<forall>i<3. length (rawSteps JNull) \<le> i \<longrightarrow>
           steps q ! i =
             \<lparr>title = stepTitles ! i, summary = [], whatThisDoes = [], howTo = [],
               output' = []\<rparr>"
    by (elim exE conjE)
  have c: "steps q ! 2 =
          \<lparr>title = js ''Step 3'', summary = [], whatThisDoes = [], howTo = [], output' = []\<rparr>"
    using e [rule_format, of 2] by (simp add: rawSteps_def stepTitles_def)
  have 1: "\<exists>p. coercePlan (js ''f'') (js ''n'') exampleRaw (js ''i'') noInputs = Inr p
      \<and> length (steps p) = 3
      \<and> map title (steps p) = [js ''A'', js ''Step 2'', js ''Step 3'']
      \<and> howTo (steps p ! 0) = [js ''a'', js ''b'']"
    by (rule exI [of _ p]) (intro conjI p l a b)
  have 2: "\<exists>p. coercePlan (js ''f'') (js ''n'') JNull (js ''i'') noInputs = Inr p
      \<and> length (steps p) = 3
      \<and> steps p ! 2 =
          \<lparr>title = js ''Step 3'', summary = [], whatThisDoes = [], howTo = [], output' = []\<rparr>"
    by (rule exI [of _ q]) (intro conjI q m c)
  show ?thesis using 1 2 by (rule conjI)
qed

lemma ensureArrayOfStrings_not_array: "\<not> isArray x \<Longrightarrow> ensureArrayOfStrings x = []"
  by (simp add: ensureArrayOfStrings_def)

text \<open>
  C10. \<open>ensureArrayOfStrings\<close> returns the empty list for every value that is not an
  array, a string of several lines included. The endpoint's \<open>coercePlan\<close> returns a
  plan for every \<open>raw\<close>, and where \<open>howTo\<close> or \<open>whatThisDoes\<close> of one of the first
  three entries of \<open>raw.steps\<close> is not an array, that field of the step is empty.
\<close>

theorem ensureArrayOfStrings_non_array:
  "(\<not> isArray x \<longrightarrow> ensureArrayOfStrings x = [])
   \<and> ensureArrayOfStrings (JStr t) = []
   \<and> (\<exists>p. coercePlan_api uid nowIso raw idea0 inputs0 = Inr p
        \<and> length (po_steps p) = 3
        \<and> (\<forall>i<3. i < length (rawSteps raw)
               \<and> \<not> isArray (getOpt (rawSteps raw ! i) (js ''howTo''))
             \<longrightarrow> howTo (po_steps p ! i) = [])
        \<and> (\<forall>i<3. i < length (rawSteps raw)
               \<and> \<not> isArray (getOpt (rawSteps raw ! i) (js ''whatThisDoes''))
             \<longrightarrow> whatThisDoes (po_steps p ! i) = []))"
proof -
  let ?rs = "rawSteps raw"
  from coercePlan_api_steps [of uid nowIso raw idea0 inputs0]
  obtain p where p: "coercePlan_api uid nowIso raw idea0 inputs0 = Inr p"
    and s: "po_steps p =
         map (\<lambda>i. if i < length ?rs then coerceStep_api (?rs ! i) i else emptyStep (i + 1)) [0..<3]"
    by (elim exE conjE)
  have l: "length (po_steps p) = 3" by (simp add: s)
  have n: "po_steps p ! i = (if i < length ?rs then coerceStep_api (?rs ! i) i else emptyStep (i + 1))"
    if "i < 3" for i
    using that by (simp add: s del: upt_Suc)
  have h: "\<forall>i<3. i < length ?rs \<and> \<not> isArray (getOpt (?rs ! i) (js ''howTo''))
             \<longrightarrow> howTo (po_steps p ! i) = []"
    by (simp add: n coerceStep_api_def ensureArrayOfStrings_not_array)
  have w: "\<forall>i<3. i < length ?rs \<and> \<not> isArray (getOpt (?rs ! i) (js ''whatThisDoes''))
             \<longrightarrow> whatThisDoes (po_steps p ! i) = []"
    by (simp add: n coerceStep_api_def ensureArrayOfStrings_not_array)
  have e: "\<exists>p. coercePlan_api uid nowIso raw idea0 inputs0 = Inr p
        \<and> length (po_steps p) = 3
        \<and> (\<forall>i<3. i < length ?rs \<and> \<not> isArray (getOpt (?rs ! i) (js ''howTo''))
             \<longrightarrow> howTo (po_steps p ! i) = [])
        \<and> (\<forall>i<3. i < length ?rs \<and> \<not> isArray (getOpt (?rs ! i) (js ''whatThisDoes''))
             \<longrightarrow> whatThisDoes (po_steps p ! i) = [])"
    by (rule exI [of _ p]) (intro conjI p l h w)
  have a: "\<not> isArray x \<longrightarrow> ensureArrayOfStrings x = []"
    by (simp add: ensureArrayOfStrings_not_array)
  have b: "ensureArrayOfStrings (JStr t) = []"
    by (simp add: ensureArrayOfStrings_def)
  show ?thesis by (intro conjI a b e)
qed

theorem ensureArrayOfStrings_non_array_witness:
  "ensureArrayOfStrings (JStr (js ''- a'' @ [0xA] @ js ''- b'')) = []
   \<and> toStrArray (JStr (js ''- a'' @ [0xA] @ js ''- b'')) = [js ''a'', js ''b'']
   \<and> (\<exists>p. coercePlan_api (js ''u'') (js ''n'') exampleResponse (js ''i'') noInputs = Inr p
        \<and> howTo (po_steps p ! 0) = []
        \<and> whatThisDoes (po_steps p ! 0) = [js ''x''])"
proof -
  note t = ensureArrayOfStrings_non_array
    [of "JStr (js ''- a'' @ [0xA] @ js ''- b'')" "js ''- a'' @ [0xA] @ js ''- b''"
        "js ''u''" "js ''n''" exampleResponse "js ''i''" noInputs]
  have a: "ensureArrayOfStrings (JStr (js ''- a'' @ [0xA] @ js ''- b'')) = []"
    using t by simp
  have b: "toStrArray (JStr (js ''- a'' @ [0xA] @ js ''- b'')) = [js ''a'', js ''b'']"
    by (simp add: coerce_eval)
  from t obtain p where p: "coercePlan_api (js ''u'') (js ''n'') exampleResponse (js ''i'') noInputs = Inr p"
    and l: "length (po_steps p) = 3"
    and h: "\<forall>i<3. i < length (rawSteps exampleResponse)
               \<and> \<not> isArray (getOpt (rawSteps exampleResponse ! i) (js ''howTo''))
             \<longrightarrow> howTo (po_steps p ! i) = []"
    by (elim exE conjE)
  have rs: "rawSteps exampleResponse =
     [JObj [(js ''howTo'', JStr (js ''- a'' @ [0xA] @ js ''- b'')),
                   (js ''whatThisDoes'', JArr [JStr (js '' x '')])]]"
    by (simp add: rawSteps_def exampleResponse_def)
  have c: "howTo (po_steps p ! 0) = []"
    using h by (simp add: rs js_def)
  from coercePlan_api_steps [of "js ''u''" "js ''n''" exampleResponse "js ''i''" noInputs] p
  have s: "po_steps p =
         map (\<lambda>i. if i < length (rawSteps exampleResponse)
                   then coerceStep_api (rawSteps exampleResponse ! i) i
                   else emptyStep (i + 1)) [0..<3]"
    by auto
  have d: "whatThisDoes (po_steps p ! 0) = [js ''x'']"
    unfolding s rs
    by (simp add: coerceStep_api_def ensureArrayOfStrings_def trim_def isWhiteSpace_def js_def upt_rec)
  have e: "\<exists>p. coercePlan_api (js ''u'') (js ''n'') exampleResponse (js ''i'') noInputs = Inr p
        \<and> howTo (po_steps p ! 0) = []
        \<and> whatThisDoes (po_steps p ! 0) = [js ''x'']"
    by (rule exI [of _ p]) (intro conjI p c d)
  show ?thesis by (intro conjI a b e)
qed

subsection \<open>Bullet coercion\<close>














subsection \<open>Generation and the store\<close>

lemma tryGenerate_storage:
  "localStorage (tryGenerate stringify env i st) = localStorage st
   \<or> (\<exists>status d p. fetchOutcome env = FetchResponse True status (Some d) \<and> truthy d
         \<and> \<not> storageFull env
         \<and> coercePlan (env_freshId env) (env_nowIso env) d i (st_inputs st) = Inr p
         \<and> st_plan (tryGenerate stringify env i st) = Some p
         \<and> localStorage (tryGenerate stringify env i st)
             = (localStorage st)(LS_PLAN_KEY \<mapsto> stringify p))"
  by (auto simp: tryGenerate_def catchError_def Let_def split: fetch_outcome.splits sum.splits option.splits)

lemma tryGenerate_failed:
  "failed (fetchOutcome env) \<Longrightarrow>
     localStorage (tryGenerate stringify env i st) = localStorage st
     \<and> st_plan (tryGenerate stringify env i st) = st_plan st"
  by (auto simp: tryGenerate_def catchError_def Let_def split: fetch_outcome.splits sum.splits option.splits)

text \<open>
  C9. When the request fails (\<open>fetch\<close> throws, the response is not ok, or its body
  cannot be parsed), \<open>onGenerate\<close> leaves the store and the plan shown as they were.
  Whatever happens, no key but that of the latest plan changes; and when the store has
  changed, the response was ok, its body parsed, \<open>coercePlan\<close> returned a plan, and
  the store differs by that plan written under the key of the latest plan.
\<close>

theorem onGenerate_failure_keeps_storage:
  "(failed (fetchOutcome env) \<longrightarrow>
      localStorage (onGenerate stringify env st) = localStorage st
      \<and> st_plan (onGenerate stringify env st) = st_plan st)
   \<and> (k \<noteq> LS_PLAN_KEY \<longrightarrow> localStorage (onGenerate stringify env st) k = localStorage st k)
   \<and> (localStorage (onGenerate stringify env st) \<noteq> localStorage st \<longrightarrow>
        (\<exists>status d p. fetchOutcome env = FetchResponse True status (Some d) \<and> truthy d
           \<and> trim (st_idea st) \<noteq> []
           \<and> coercePlan (env_freshId env) (env_nowIso env) d (trim (st_idea st)) (st_inputs st) = Inr p
           \<and> st_plan (onGenerate stringify env st) = Some p
           \<and> localStorage (onGenerate stringify env st)
               = (localStorage st)(LS_PLAN_KEY \<mapsto> stringify p)))"
proof -
  let ?i = "trim (st_idea st)"
  let ?st = "st\<lparr>st_error := JStr [], st_loading := True\<rparr>"
  have a: "failed (fetchOutcome env) \<longrightarrow>
      localStorage (onGenerate stringify env st) = localStorage st
      \<and> st_plan (onGenerate stringify env st) = st_plan st"
    using tryGenerate_failed [of env stringify ?i ?st]
    by (simp add: onGenerate_def Let_def)
  have c: "localStorage (onGenerate stringify env st) \<noteq> localStorage st \<longrightarrow>
        (\<exists>status d p. fetchOutcome env = FetchResponse True status (Some d) \<and> truthy d
           \<and> ?i \<noteq> []
           \<and> coercePlan (env_freshId env) (env_nowIso env) d ?i (st_inputs st) = Inr p
           \<and> st_plan (onGenerate stringify env st) = Some p
           \<and> localStorage (onGenerate stringify env st)
               = (localStorage st)(LS_PLAN_KEY \<mapsto> stringify p))"
    using tryGenerate_storage [of stringify env ?i ?st]
    by (auto simp: onGenerate_def Let_def)
  have b: "k \<noteq> LS_PLAN_KEY \<longrightarrow> localStorage (onGenerate stringify env st) k = localStorage st k"
  proof (cases "localStorage (onGenerate stringify env st) = localStorage st")
    case True
    then show ?thesis by simp
  next
    case False
    with c obtain p where "localStorage (onGenerate stringify env st)
               = (localStorage st)(LS_PLAN_KEY \<mapsto> stringify p)"
      by blast
    then show ?thesis by simp
  qed
  show ?thesis by (intro conjI a b c)
qed

theorem onGenerate_failure_keeps_storage_witness:
  "localStorage
     (onGenerate id'
        (exampleEnv (FetchResponse False 500 (Some (JObj [(js ''error'', JStr (js ''x''))]))))
        examplePage) = exampleStore
   \<and> localStorage (onGenerate id' (exampleEnv (FetchResponse True 200 None)) examplePage)
       = exampleStore
   \<and> localStorage (onGenerate id' (exampleEnv (FetchRejected (JStr (js ''offline'')))) examplePage)
       = exampleStore
   \<and> localStorage (onGenerate id' (exampleEnv (FetchResponse True 200 (Some exampleRaw))) examplePage)
       = exampleStore(LS_PLAN_KEY \<mapsto> js ''f'')
   \<and> localStorage (onGenerate id' (exampleEnv (FetchResponse True 200 (Some exampleRaw))) examplePage)
         (checksKey (js ''plan_1'')) = Some (js ''{}'')"
proof -
  let ?e1 = "exampleEnv (FetchResponse False 500 (Some (JObj [(js ''error'', JStr (js ''x''))])))"
  let ?e2 = "exampleEnv (FetchResponse True 200 None)"
  let ?e3 = "exampleEnv (FetchRejected (JStr (js ''offline'')))"
  let ?e4 = "exampleEnv (FetchResponse True 200 (Some exampleRaw))"
  have s: "localStorage examplePage = exampleStore"
    by (simp add: examplePage_def)
  have f: "failed (fetchOutcome ?e1)" "failed (fetchOutcome ?e2)" "failed (fetchOutcome ?e3)"
    by (simp_all add: exampleEnv_def)
  have 1: "localStorage (onGenerate id' ?e1 examplePage) = exampleStore"
    using onGenerate_failure_keeps_storage [of ?e1 id' examplePage] f(1) s by simp
  have 2: "localStorage (onGenerate id' ?e2 examplePage) = exampleStore"
    using onGenerate_failure_keeps_storage [of ?e2 id' examplePage] f(2) s by simp
  have 3: "localStorage (onGenerate id' ?e3 examplePage) = exampleStore"
    using onGenerate_failure_keeps_storage [of ?e3 id' examplePage] f(3) s by simp
  have t: "trim (st_idea examplePage) = js ''cafe''"
    by (simp add: examplePage_def trim_def isWhiteSpace_def js_def)
  have "\<exists>p. coercePlan (js ''f'') (js ''n'') exampleRaw (js ''cafe'') noInputs = Inr p
      \<and> id' p = js ''f''"
    by (simp add: coercePlan_def inputsRawOf_eq stepsRawOf_eq bindE_def exampleRaw_def orStr_def
        js_def)
  then obtain p where p: "coercePlan (js ''f'') (js ''n'') exampleRaw (js ''cafe'') noInputs = Inr p"
    "id' p = js ''f''" by blast
  have 4: "localStorage (onGenerate id' ?e4 examplePage) = exampleStore(LS_PLAN_KEY \<mapsto> js ''f'')"
    using p s
    by (simp add: onGenerate_def tryGenerate_def t Let_def exampleEnv_def)
       (simp add: examplePage_def exampleRaw_def js_def)
  have k: "checksKey (js ''plan_1'') \<noteq> LS_PLAN_KEY"
    by (simp add: checksKey_def LS_PLAN_KEY_def js_def)
  have 5: "localStorage (onGenerate id' ?e4 examplePage) (checksKey (js ''plan_1'')) = Some (js ''{}'')"
    using onGenerate_failure_keeps_storage [of ?e4 id' examplePage "checksKey (js ''plan_1'')"] k s
    by (simp add: exampleStore_def)
  show ?thesis by (intro conjI 1 2 3 4 5)
qed

subsection \<open>Reset of the completion state\<close>

text \<open>
  C8. After a click on reset the mapping in memory is empty. The handler removes the
  entry of the plan's identity from the store; the effect that persists \<open>checks\<close> then
  runs, because \<open>checks\<close> changed, and writes the empty mapping under the same key. At
  the end the entry is present and holds the empty mapping.
\<close>

theorem resetChecks_entry_rewritten:
  "cs_checks (onResetClick stringify st) = Map.empty
   \<and> cs_storage (resetChecks st) (checksKey (cs_pid st)) = None
   \<and> cs_storage (onResetClick stringify st) (checksKey (cs_pid st)) = Some (stringify Map.empty)
   \<and> cs_storage (onResetClick stringify exampleCalendar) (checksKey (js ''plan_1''))
       = Some (stringify Map.empty)"
  by (simp add: onResetClick_def persistChecks_def resetChecks_def exampleCalendar_def)

end
